theory Spec2Isabelle
  imports Complex_Main "HOL-Library.Word" "HOL-Library.Sublist"
begin

section \<open>The binary decoder (unkompress3.c)\<close>

text \<open>
  Wavelengths and the other floating-point fields are modelled by their values as
  real numbers: the reader only compares and copies them (finite doubles compare as
  the reals they denote; NaN is outside the model).  Output buffers are the raw
  pointers of the C interface, so they are total functions from an index to a
  value: the C code performs no bounds check on them.
\<close>

type_synonym byte = "8 word"

definition MAX_OPEN_FILES :: int where
  "MAX_OPEN_FILES = 400"

text \<open>\<^verbatim>\<open>struct RECORD\<close>: one directory entry of the descriptor file.\<close>

record RECORD =
  wl1 :: real
  wl2 :: real
  offset :: nat
  length_r :: int

text \<open>
  One open file \<open>f\<close>: \<^verbatim>\<open>records[f]\<close> (its length is \<^verbatim>\<open>number_of_records[f]\<close>),
  \<^verbatim>\<open>current_record[f]\<close>, and the stream \<^verbatim>\<open>fi[f]\<close> as the file's bytes and the
  position of the next read.  \<open>seek_fails\<close> is the operating system's answer to
  \<^verbatim>\<open>fseek\<close> at an offset.
\<close>

record reader =
  records :: "RECORD list"
  current_record :: nat
  data :: "byte list"
  pos :: nat
  seek_fails :: "nat \<Rightarrow> bool"

text \<open>The caller's thirteen output arrays.\<close>

record buffers =
  wl :: "nat \<Rightarrow> real"
  element :: "nat \<Rightarrow> int"
  j_low :: "nat \<Rightarrow> real"
  e_low :: "nat \<Rightarrow> real"
  j_high :: "nat \<Rightarrow> real"
  e_high :: "nat \<Rightarrow> real"
  loggf :: "nat \<Rightarrow> real"
  gamrad :: "nat \<Rightarrow> real"
  gamst :: "nat \<Rightarrow> real"
  gamvw :: "nat \<Rightarrow> real"
  lande_low :: "nat \<Rightarrow> real"
  lande_high :: "nat \<Rightarrow> real"
  str :: "nat \<Rightarrow> byte"

text \<open>
  One completed 270-byte \<^verbatim>\<open>line\<close> of \<^verbatim>\<open>uncompress\<close>, as \<^verbatim>\<open>ADDLINE\<close> reads it:
  twelve numbers from bytes 0..59 and the 210 bytes from offset 60.
\<close>

record line =
  ln_wl :: real
  ln_element :: int
  ln_loggf :: real
  ln_e_low :: real
  ln_j_low :: real
  ln_e_high :: real
  ln_j_high :: real
  ln_lande_low :: real
  ln_lande_high :: real
  ln_gamrad :: real
  ln_gamst :: real
  ln_gamvw :: real
  ln_str :: "byte list"

text \<open>\<^verbatim>\<open>memcpy(dst + d, src, n)\<close> on a byte buffer.\<close>

definition memcpy :: "(nat \<Rightarrow> byte) \<Rightarrow> nat \<Rightarrow> byte list \<Rightarrow> nat \<Rightarrow> (nat \<Rightarrow> byte)" where
  "memcpy dst d src n = fold (\<lambda>j m. m(d + j := src ! j)) [0..<n] dst"

text \<open>
  The body of \<^verbatim>\<open>ADDLINE\<close> once \<^verbatim>\<open>nbytes\<close> reaches \<^verbatim>\<open>LINE_LENGTH\<close>: the fields of the
  line go to index \<^verbatim>\<open>nlines\<close> of each array and its text block to
  \<^verbatim>\<open>str + nlines*210\<close>.
\<close>

definition ADDLINE :: "line \<Rightarrow> nat \<Rightarrow> buffers \<Rightarrow> buffers" where
  "ADDLINE l nlines b =
     b\<lparr> wl := (wl b)(nlines := ln_wl l),
        element := (element b)(nlines := ln_element l),
        loggf := (loggf b)(nlines := ln_loggf l),
        e_low := (e_low b)(nlines := ln_e_low l),
        j_low := (j_low b)(nlines := ln_j_low l),
        e_high := (e_high b)(nlines := ln_e_high l),
        j_high := (j_high b)(nlines := ln_j_high l),
        lande_low := (lande_low b)(nlines := ln_lande_low l),
        lande_high := (lande_high b)(nlines := ln_lande_high l),
        gamrad := (gamrad b)(nlines := ln_gamrad l),
        gamst := (gamst b)(nlines := ln_gamst l),
        gamvw := (gamvw b)(nlines := ln_gamvw l),
        str := memcpy (str b) (nlines * 210) (ln_str l) 210 \<rparr>"

text \<open>
  \<^verbatim>\<open>uncompress\<close>: the LZW loop turns the compressed record into a sequence of
  completed lines, and \<^verbatim>\<open>ADDLINE\<close> stores each as it is completed.  The LZW
  code-to-byte decoding and the reading of bytes as IEEE numbers are the parameter
  \<open>lzw\<close>; everything proved below holds for every such decoder.
\<close>

fun store_lines :: "line list \<Rightarrow> nat \<Rightarrow> buffers \<Rightarrow> buffers \<times> nat" where
  "store_lines [] nlines b = (b, nlines)"
| "store_lines (l # ls) nlines b = store_lines ls (Suc nlines) (ADDLINE l nlines b)"

definition uncompress :: "(byte list \<Rightarrow> line list) \<Rightarrow> byte list \<Rightarrow> buffers \<Rightarrow> buffers \<times> nat" where
  "uncompress lzw record b = store_lines (lzw record) 0 b"

text \<open>The handle check shared by \<^verbatim>\<open>ukread_\<close>, \<^verbatim>\<open>uknext_\<close> and \<^verbatim>\<open>ukclose_\<close>.\<close>

definition valid_file :: "(int \<Rightarrow> reader option) \<Rightarrow> int \<Rightarrow> reader option" where
  "valid_file fi f = (if f \<ge> MAX_OPEN_FILES \<or> f < 0 then None else fi f)"

text \<open>
  \<^verbatim>\<open>fread(record, length, 1, fi[f])\<close>: one item of \<open>length\<close> bytes.  It succeeds
  (returns 1) only when \<open>length\<close> is positive and that many bytes remain.
\<close>

definition fread1 :: "reader \<Rightarrow> int \<Rightarrow> (byte list) option \<times> reader" where
  "fread1 rd len =
     (if 0 < len \<and> pos rd + nat len \<le> length (data rd)
      then (Some (take (nat len) (drop (pos rd) (data rd))), rd\<lparr>pos := pos rd + nat len\<rparr>)
      else (None, if len = 0 then rd else rd\<lparr>pos := max (pos rd) (length (data rd))\<rparr>))"

text \<open>The bisection loop \<^verbatim>\<open>while(j-i>1)\<close> of \<^verbatim>\<open>ukread_\<close>; it returns the final \<open>(i, j)\<close>.\<close>

function bisect :: "RECORD list \<Rightarrow> real \<Rightarrow> nat \<Rightarrow> nat \<Rightarrow> nat \<times> nat" where
  "bisect D wave1 i j =
     (if j - i > 1
      then (let k = (i + j) div 2
            in if wave1 < wl1 (D ! k) then bisect D wave1 i k else bisect D wave1 k j)
      else (i, j))"
  by pat_completeness auto
termination
  by (relation "measure (\<lambda>(D, w, i, j). j - i)") auto

declare bisect.simps [simp del]

text \<open>
  "Find starting record number": \<open>None\<close> is the \<^verbatim>\<open>return -2\<close>, \<open>Some k\<close> the value
  assigned to \<^verbatim>\<open>current_record[f]\<close>.  The indices are non-negative C ints
  whenever the directory is not empty; an empty directory makes the C code read
  \<^verbatim>\<open>records[f][-1]\<close>, which \<^verbatim>\<open>ukread_\<close> below reports as undefined behaviour.
\<close>

definition locate :: "RECORD list \<Rightarrow> real \<Rightarrow> real \<Rightarrow> nat option" where
  "locate D wave1 wave2 =
     (let i = 0; j = length D - 1
      in if wave1 > wl2 (D ! j) \<or> wave2 < wl1 (D ! i) then None
         else if wave1 < wl1 (D ! i) then Some i
         else (let (i', j') = bisect D wave1 i j
               in Some (if wave1 > wl2 (D ! i') then j' else i')))"

text \<open>The 76-byte copy loop of the filter.\<close>

definition copy76 :: "(nat \<Rightarrow> byte) \<Rightarrow> nat \<Rightarrow> nat \<Rightarrow> (nat \<Rightarrow> byte)" where
  "copy76 s filtered_count i =
     fold (\<lambda>j m. m(filtered_count * 76 + j := m (i * 76 + j))) [0..<76] s"

text \<open>One iteration of the filter loop, on \<open>(buffers, filtered_count)\<close>.\<close>

definition filter_step :: "real \<Rightarrow> real \<Rightarrow> nat \<Rightarrow> buffers \<times> nat \<Rightarrow> buffers \<times> nat" where
  "filter_step wave1 wave2 i st =
     (let (b, filtered_count) = st
      in if wl b i \<ge> wave1 \<and> wl b i \<le> wave2
         then ((if filtered_count \<noteq> i
                then b\<lparr> wl := (wl b)(filtered_count := wl b i),
                        element := (element b)(filtered_count := element b i),
                        j_low := (j_low b)(filtered_count := j_low b i),
                        e_low := (e_low b)(filtered_count := e_low b i),
                        j_high := (j_high b)(filtered_count := j_high b i),
                        e_high := (e_high b)(filtered_count := e_high b i),
                        loggf := (loggf b)(filtered_count := loggf b i),
                        gamrad := (gamrad b)(filtered_count := gamrad b i),
                        gamst := (gamst b)(filtered_count := gamst b i),
                        gamvw := (gamvw b)(filtered_count := gamvw b i),
                        lande_low := (lande_low b)(filtered_count := lande_low b i),
                        lande_high := (lande_high b)(filtered_count := lande_high b i),
                        str := copy76 (str b) filtered_count i \<rparr>
                else b), Suc filtered_count)
         else (b, filtered_count))"

definition filter_lines :: "real \<Rightarrow> real \<Rightarrow> nat \<Rightarrow> buffers \<Rightarrow> buffers \<times> nat" where
  "filter_lines wave1 wave2 nlines b = fold (filter_step wave1 wave2) [0..<nlines] (b, 0)"

text \<open>
  \<^verbatim>\<open>ukread_\<close>.  The result is the C return value, the table of open files and the
  output buffers.  \<open>None\<close> stands for the undefined behaviour of an empty directory.
\<close>

definition ukread :: "(byte list \<Rightarrow> line list) \<Rightarrow> (int \<Rightarrow> reader option) \<Rightarrow> int \<Rightarrow> real \<Rightarrow> real
    \<Rightarrow> buffers \<Rightarrow> (int \<times> (int \<Rightarrow> reader option) \<times> buffers) option" where
  "ukread lzw fi f wave1 wave2 b =
     (case valid_file fi f of
        None \<Rightarrow> Some (-1, fi, b)
      | Some rd \<Rightarrow>
          if records rd = [] then None
          else (case locate (records rd) wave1 wave2 of
                  None \<Rightarrow> Some (-2, fi, b)
                | Some k \<Rightarrow>
                    let rd1 = rd\<lparr>current_record := k\<rparr>;
                        off = offset (records rd1 ! current_record rd1)
                    in if seek_fails rd1 off then Some (-3, fi(f := Some rd1), b)
                       else (let rd2 = rd1\<lparr>pos := off\<rparr>;
                                 len = length_r (records rd2 ! current_record rd2)
                             in case fread1 rd2 len of
                                  (None, rd3) \<Rightarrow> Some (-4, fi(f := Some rd3), b)
                                | (Some record, rd3) \<Rightarrow>
                                    let (b1, nlines) = uncompress lzw record b;
                                        (b2, filtered_count) = filter_lines wave1 wave2 nlines b1;
                                        rd4 = rd3\<lparr>current_record := current_record rd3 + 1\<rparr>
                                    in Some (int filtered_count, fi(f := Some rd4), b2))))"

text \<open>\<^verbatim>\<open>uknext_\<close>.\<close>

definition uknext :: "(byte list \<Rightarrow> line list) \<Rightarrow> (int \<Rightarrow> reader option) \<Rightarrow> int
    \<Rightarrow> buffers \<Rightarrow> int \<times> (int \<Rightarrow> reader option) \<times> buffers" where
  "uknext lzw fi f b =
     (case valid_file fi f of
        None \<Rightarrow> (-1, fi, b)
      | Some rd \<Rightarrow>
          if current_record rd \<ge> length (records rd) then (-2, fi, b)
          else (let len = length_r (records rd ! current_record rd)
                in case fread1 rd len of
                     (None, rd1) \<Rightarrow> (-3, fi(f := Some rd1), b)
                   | (Some record, rd1) \<Rightarrow>
                       let (b1, nlines) = uncompress lzw record b;
                           rd2 = rd1\<lparr>current_record := current_record rd1 + 1\<rparr>
                       in (int nlines, fi(f := Some rd2), b1)))"

subsection \<open>The caller of the decoder (vald3\_decompress.cpp)\<close>

text \<open>
  \<^verbatim>\<open>VALD3Reader::query_range\<close> reads transition \<open>i\<close> of the temporary buffers as
  index \<open>i\<close> of the twelve numeric vectors and the \<^verbatim>\<open>STR_BYTES_PER_LINE = 210\<close> bytes
  from \<^verbatim>\<open>str[i * 210]\<close>, and pushes them to the back of the thirteen output vectors;
  the output vectors together are the list of the pushed transitions.
\<close>

definition block_at :: "(nat \<Rightarrow> byte) \<Rightarrow> nat \<Rightarrow> nat \<Rightarrow> byte list" where
  "block_at s stride p = map (\<lambda>t. s (p * stride + t)) [0..<stride]"

definition line_at :: "buffers \<Rightarrow> nat \<Rightarrow> line" where
  "line_at b i =
     \<lparr> ln_wl = wl b i, ln_element = element b i, ln_loggf = loggf b i,
       ln_e_low = e_low b i, ln_j_low = j_low b i, ln_e_high = e_high b i,
       ln_j_high = j_high b i, ln_lande_low = lande_low b i,
       ln_lande_high = lande_high b i, ln_gamrad = gamrad b i, ln_gamst = gamst b i,
       ln_gamvw = gamvw b i, ln_str = block_at (str b) 210 i \<rparr>"

text \<open>The inner \<^verbatim>\<open>for\<close> loop: "Filter and copy lines that are in wavelength range".\<close>

definition copy_lines :: "real \<Rightarrow> real \<Rightarrow> int \<Rightarrow> buffers \<Rightarrow> nat \<Rightarrow> line list \<Rightarrow> line list" where
  "copy_lines wl_min wl_max max_lines b nlines out =
     fold (\<lambda>i acc. if int (length acc) < max_lines \<and> wl b i \<ge> wl_min \<and> wl b i \<le> wl_max
                     then acc @ [line_at b i] else acc) [0..<nlines] out"

text \<open>Records left to read in file \<open>f\<close>; the measure of the caller's loop.\<close>

definition records_left :: "(int \<Rightarrow> reader option) \<Rightarrow> int \<Rightarrow> nat" where
  "records_left fi f =
     (case valid_file fi f of None \<Rightarrow> 0
      | Some rd \<Rightarrow> length (records rd) - current_record rd)"

lemma uknext_records_left:
  "uknext lzw fi f b = (ret, fi', b') \<Longrightarrow>
     records_left fi' f \<le> records_left fi f \<and> (0 < ret \<longrightarrow> records_left fi' f < records_left fi f)"
  by (auto simp: uknext_def records_left_def valid_file_def fread1_def Let_def
      split: option.splits if_splits prod.splits)

text \<open>
  The \<^verbatim>\<open>while (nlines > 0 && total_lines < max_lines)\<close> loop;
  \<^verbatim>\<open>total_lines\<close> is the length of the output.
\<close>

function query_loop :: "(byte list \<Rightarrow> line list) \<Rightarrow> int \<Rightarrow> real \<Rightarrow> real \<Rightarrow> int
    \<Rightarrow> int \<Rightarrow> (int \<Rightarrow> reader option) \<Rightarrow> buffers \<Rightarrow> line list
    \<Rightarrow> line list \<times> (int \<Rightarrow> reader option)" where
  "query_loop lzw f wl_min wl_max max_lines nlines fi b out =
     (if nlines > 0 \<and> int (length out) < max_lines
      then (let out' = copy_lines wl_min wl_max max_lines b (nat nlines) out;
                r = uknext lzw fi f b;
                nlines' = fst r; fi' = fst (snd r); b' = snd (snd r)
            in if nlines' > 0 \<and> wl b' 0 > wl_max then (out', fi')
               else query_loop lzw f wl_min wl_max max_lines nlines' fi' b' out')
      else (out, fi))"
  by pat_completeness auto
termination
proof (relation "measure (\<lambda>(lzw, f, wl_min, wl_max, max_lines, nlines, fi, b, out).
          2 * records_left fi f + (if nlines > 0 then 1 else 0))", goal_cases)
  case 1
  show ?case by simp
next
  case (2 lzw f wl_min wl_max max_lines nlines fi b out out' r nlines' fi' b')
  have "uknext lzw fi f b = (nlines', fi', b')" using 2 by simp
  from uknext_records_left[OF this] 2(1) show ?case by auto
qed

declare query_loop.simps [simp del]

datatype query_error = NotOpen | InvalidRange

text \<open>The temporary vectors are value-initialised.\<close>

definition fresh_buffers :: buffers where
  "fresh_buffers =
     \<lparr> wl = (\<lambda>_. 0), element = (\<lambda>_. 0), j_low = (\<lambda>_. 0), e_low = (\<lambda>_. 0),
       j_high = (\<lambda>_. 0), e_high = (\<lambda>_. 0), loggf = (\<lambda>_. 0), gamrad = (\<lambda>_. 0),
       gamst = (\<lambda>_. 0), gamvw = (\<lambda>_. 0), lande_low = (\<lambda>_. 0), lande_high = (\<lambda>_. 0),
       str = (\<lambda>_. 0) \<rparr>"

text \<open>
  \<^verbatim>\<open>query_range\<close>; \<^verbatim>\<open>file_handle\<close> is 1.  The two exceptions are \<open>Inl\<close>; the inner
  \<open>None\<close> is the undefined behaviour of \<^verbatim>\<open>ukread_\<close> on an empty directory.
\<close>

definition query_range :: "(byte list \<Rightarrow> line list) \<Rightarrow> (int \<Rightarrow> reader option) \<Rightarrow> bool
    \<Rightarrow> real \<Rightarrow> real \<Rightarrow> int \<Rightarrow> query_error + (line list \<times> (int \<Rightarrow> reader option)) option" where
  "query_range lzw fi is_open wl_min wl_max max_lines =
     (if \<not> is_open then Inl NotOpen
      else if wl_min \<ge> wl_max then Inl InvalidRange
      else Inr (case ukread lzw fi 1 wl_min wl_max fresh_buffers of
                  None \<Rightarrow> None
                | Some (nlines, fi', b) \<Rightarrow>
                    Some (query_loop lzw 1 wl_min wl_max max_lines nlines fi' b [])))"

subsection \<open>Notions used to state the decoder's properties\<close>

text \<open>
  The directory invariant of the data model: every entry is a range, and the
  entries are sorted by \<open>wl1\<close> with non-overlapping ranges.
\<close>

definition directory_inv :: "RECORD list \<Rightarrow> bool" where
  "directory_inv D =
     (list_all (\<lambda>r. wl1 r \<le> wl2 r) D \<and>
      sorted_wrt (\<lambda>a b. wl1 a \<le> wl1 b \<and> wl2 a \<le> wl1 b) D)"

text \<open>The twelve numeric values at index \<open>p\<close> of the buffers, and those of a decoded line.\<close>

definition fields_at :: "buffers \<Rightarrow> nat
    \<Rightarrow> real \<times> int \<times> real \<times> real \<times> real \<times> real \<times> real \<times> real \<times> real \<times> real \<times> real \<times> real" where
  "fields_at b p = (wl b p, element b p, j_low b p, e_low b p, j_high b p, e_high b p,
     loggf b p, gamrad b p, gamst b p, gamvw b p, lande_low b p, lande_high b p)"

definition line_fields :: "line
    \<Rightarrow> real \<times> int \<times> real \<times> real \<times> real \<times> real \<times> real \<times> real \<times> real \<times> real \<times> real \<times> real" where
  "line_fields l = (ln_wl l, ln_element l, ln_j_low l, ln_e_low l, ln_j_high l, ln_e_high l,
     ln_loggf l, ln_gamrad l, ln_gamst l, ln_gamvw l, ln_lande_low l, ln_lande_high l)"

text \<open>The indices below \<open>nlines\<close> whose wavelength lies in the query range, in order.\<close>

definition in_range_idx :: "real \<Rightarrow> real \<Rightarrow> buffers \<Rightarrow> nat \<Rightarrow> nat list" where
  "in_range_idx wave1 wave2 b nlines =
     filter (\<lambda>i. wave1 \<le> wl b i \<and> wl b i \<le> wave2) [0..<nlines]"

text \<open>The invariant of the filter loop after \<open>k\<close> iterations, started on \<open>b0\<close>.\<close>

definition filter_inv :: "real \<Rightarrow> real \<Rightarrow> buffers \<Rightarrow> nat \<Rightarrow> buffers \<times> nat \<Rightarrow> bool" where
  "filter_inv wave1 wave2 b0 k st =
     (let ix = in_range_idx wave1 wave2 b0 k; b = fst st; fc = snd st
      in fc = length ix \<and>
         (\<forall>p<fc. fields_at b p = fields_at b0 (ix ! p)) \<and>
         (\<forall>q\<ge>fc. fields_at b q = fields_at b0 q) \<and>
         (\<forall>x<fc * 76. str b x = str b0 ((ix ! (x div 76)) * 76 + x mod 76)) \<and>
         (\<forall>x\<ge>fc * 76. str b x = str b0 x))"

subsection \<open>A small data file used to instantiate the theorems\<close>

text \<open>
  The directory of the specification's range-query scenario: two records,
  \<open>[4000, 5000]\<close> and \<open>[5000, 6000]\<close>, of 3 and 2 compressed bytes.
\<close>

definition ex_dir :: "RECORD list" where
  "ex_dir = [\<lparr>wl1 = 4000, wl2 = 5000, offset = 0, length_r = 3\<rparr>,
             \<lparr>wl1 = 5000, wl2 = 6000, offset = 3, length_r = 2\<rparr>]"

definition ex_reader :: reader where
  "ex_reader = \<lparr>records = ex_dir, current_record = 0, data = [1, 1, 1, 2, 2], pos = 0,
                 seek_fails = (\<lambda>_. False)\<rparr>"

definition ex_fi :: "int \<Rightarrow> reader option" where
  "ex_fi = (\<lambda>f. if f = 1 then Some ex_reader else None)"

text \<open>A transition with wavelength \<open>w\<close> whose text block is 210 copies of the byte \<open>c\<close>.\<close>

definition ex_line :: "real \<Rightarrow> byte \<Rightarrow> line" where
  "ex_line w c =
     \<lparr> ln_wl = w, ln_element = 2600, ln_loggf = 0, ln_e_low = 0, ln_j_low = 0,
       ln_e_high = 0, ln_j_high = 0, ln_lande_low = 0, ln_lande_high = 0,
       ln_gamrad = 0, ln_gamst = 0, ln_gamvw = 0, ln_str = replicate 210 c \<rparr>"

text \<open>
  A decoder for the example file: the first record holds the wavelengths 4800 and 4950,
  the second 5050 and 5500.
\<close>

definition ex_lzw :: "byte list \<Rightarrow> line list" where
  "ex_lzw rcd = (if rcd = [1, 1, 1] then [ex_line 4800 65, ex_line 4950 66]
                 else [ex_line 5050 67, ex_line 5500 68])"

text \<open>The same file with one text block in every transition.\<close>

definition ex_lzw_same :: "byte list \<Rightarrow> line list" where
  "ex_lzw_same rcd = (if rcd = [1, 1, 1] then [ex_line 4800 32, ex_line 4950 32]
                      else [ex_line 5050 32, ex_line 5500 32])"

text \<open>The example file after its first record has been read.\<close>

definition ex_fi1 :: "int \<Rightarrow> reader option" where
  "ex_fi1 = ex_fi(1 := Some (ex_reader\<lparr>current_record := 1, pos := 3\<rparr>))"

section \<open>The mail splitter (parsemail.c)\<close>

subsection \<open>C strings\<close>

text \<open>
  A C string is the list of its characters before the terminating NUL.  The
  \<^verbatim>\<open>ctype.h\<close> predicates are those of the C locale.
\<close>

definition NUL :: char where
  "NUL = CHR 0x00"

definition isdigit :: "char \<Rightarrow> bool" where
  "isdigit c = (let n = of_char c :: nat in 48 \<le> n \<and> n \<le> 57)"

definition isupper :: "char \<Rightarrow> bool" where
  "isupper c = (let n = of_char c :: nat in 65 \<le> n \<and> n \<le> 90)"

definition islower :: "char \<Rightarrow> bool" where
  "islower c = (let n = of_char c :: nat in 97 \<le> n \<and> n \<le> 122)"

definition isalpha :: "char \<Rightarrow> bool" where
  "isalpha c = (isupper c \<or> islower c)"

definition isalnum :: "char \<Rightarrow> bool" where
  "isalnum c = (isalpha c \<or> isdigit c)"

definition toupper :: "char \<Rightarrow> char" where
  "toupper c = (if islower c then char_of (of_char c - (32::nat)) else c)"

definition tolower :: "char \<Rightarrow> char" where
  "tolower c = (if isupper c then char_of (of_char c + (32::nat)) else c)"

definition str2upper :: "string \<Rightarrow> string" where
  "str2upper s = map toupper s"

definition str2lower :: "string \<Rightarrow> string" where
  "str2lower s = map tolower s"

text \<open>\<^verbatim>\<open>strncmp(a, b, n) == 0\<close>.\<close>

fun strncmp0 :: "string \<Rightarrow> string \<Rightarrow> nat \<Rightarrow> bool" where
  "strncmp0 a b 0 = True"
| "strncmp0 [] [] (Suc n) = True"
| "strncmp0 (x # xs) (y # ys) (Suc n) = (x = y \<and> strncmp0 xs ys n)"
| "strncmp0 [] (y # ys) (Suc n) = False"
| "strncmp0 (x # xs) [] (Suc n) = False"

text \<open>\<^verbatim>\<open>strchr\<close> and \<^verbatim>\<open>strrchr\<close>: the index of the first and of the last occurrence.\<close>

fun strchr :: "string \<Rightarrow> char \<Rightarrow> nat option" where
  "strchr [] c = None"
| "strchr (x # xs) c = (if x = c then Some 0 else map_option Suc (strchr xs c))"

definition strrchr :: "string \<Rightarrow> char \<Rightarrow> nat option" where
  "strrchr s c = map_option (\<lambda>i. length s - 1 - i) (strchr (rev s) c)"

text \<open>
  \<^verbatim>\<open>compress\<close> of parsemail.c: the loop over the first \<open>min (strlen s) 80\<close>
  characters, and the function.
\<close>

definition keep_char :: "char \<Rightarrow> bool" where
  "keep_char c = (isalnum c \<or> c = CHR '':'' \<or> c = CHR ''.'' \<or> c = CHR '','' \<or>
                  c = CHR ''-'' \<or> c = CHR ''+'')"

fun compress_loop :: "string \<Rightarrow> string" where
  "compress_loop [] = []"
| "compress_loop (c # cs) =
     (if c = CHR ''#'' then []
      else if keep_char c then c # compress_loop cs else compress_loop cs)"

definition compress :: "string \<Rightarrow> string" where
  "compress s = compress_loop (take 80 s)"

text \<open>
  \<^verbatim>\<open>swallow_quotes\<close>: the loop carries the flag \<^verbatim>\<open>quote\<close> and the text copied so far;
  an unclosed quote gives the empty string.  Copying in place (\<^verbatim>\<open>t == s\<close>) writes
  only positions already read, so one function models both calls.
\<close>

fun swallow_loop :: "char \<Rightarrow> char \<Rightarrow> string \<Rightarrow> bool \<Rightarrow> string \<Rightarrow> string \<times> bool" where
  "swallow_loop open_q close_q [] quote t = (t, quote)"
| "swallow_loop open_q close_q (c # cs) quote t =
     (if c = open_q \<and> \<not> quote then swallow_loop open_q close_q cs True t
      else if c = close_q \<and> quote then swallow_loop open_q close_q cs False t
      else if \<not> quote then swallow_loop open_q close_q cs quote (t @ [c])
      else swallow_loop open_q close_q cs quote t)"

definition swallow_quotes :: "string \<Rightarrow> char \<Rightarrow> char \<Rightarrow> string" where
  "swallow_quotes s open_q close_q =
     (let (t, quote) = swallow_loop open_q close_q s False [] in if quote then [] else t)"

subsection \<open>The sender address of a \<^verbatim>\<open>From:\<close> line\<close>

text \<open>
  Lines 319--328 of \<^verbatim>\<open>main\<close>, on the C string at \<^verbatim>\<open>s+6\<close>: strip quoted aliases
  and aliases in parentheses, cut at the terminator, keep what follows \<^verbatim>\<open><\<close>.
\<close>

definition isolate :: "string \<Rightarrow> string" where
  "isolate hdr =
     (let s1 = swallow_quotes hdr (CHR 0x22) (CHR 0x22);
          s1 = swallow_quotes s1 (CHR ''('') (CHR '')'');
          c = strchr s1 (CHR ''>'');
          c1 = strchr s1 (CHR '' '');
          s1 = (case c of Some i \<Rightarrow> take i s1
                | None \<Rightarrow> (case c1 of Some i \<Rightarrow> take i s1 | None \<Rightarrow> s1));
          c = strchr s1 (CHR 0x0A);
          s1 = (case c of Some i \<Rightarrow> take i s1 | None \<Rightarrow> s1);
          c = strchr s1 (CHR ''<'')
      in case c of Some i \<Rightarrow> drop (Suc i) s1 | None \<Rightarrow> s1)"

text \<open>Lines 333--338: "Clear mail server name if any".\<close>

definition clean_address :: "string \<Rightarrow> string" where
  "clean_address a =
     (let address = (case strrchr a (CHR ''>'') of Some i \<Rightarrow> take i a | None \<Rightarrow> a);
          address = (case strrchr address (CHR '':'') of
                       Some i \<Rightarrow> drop (Suc i) address | None \<Rightarrow> address)
      in case strrchr address (CHR ''!'') of
           Some i \<Rightarrow> drop (Suc i) address | None \<Rightarrow> address)"

subsection \<open>\<^verbatim>\<open>CheckClient\<close>\<close>

text \<open>
  A register is the list of the strings that successive \<^verbatim>\<open>fgets(s, 160, ...)\<close>
  calls return: each line with its newline.  \<open>name_line\<close> is the treatment of a
  \<^verbatim>\<open>#$\<close> line: the two marks and every non-letter become blanks, and \<^verbatim>\<open>compress\<close>
  leaves the letters (of the first 80 characters).
\<close>

definition nth0 :: "string \<Rightarrow> nat \<Rightarrow> char" where
  "nth0 s i = (if i < length s then s ! i else NUL)"

definition name_line :: "string \<Rightarrow> string" where
  "name_line s =
     compress (map (\<lambda>c. if \<not> isalpha c then CHR '' '' else c)
                   (CHR '' '' # CHR '' '' # drop 2 s))"

fun CheckClient_loop :: "string \<Rightarrow> nat \<Rightarrow> string list \<Rightarrow> string \<Rightarrow> int \<times> string" where
  "CheckClient_loop s1 l [] ClientName = (0, [])"
| "CheckClient_loop s1 l (s # rest) ClientName =
     (if nth0 s 0 = CHR ''#''
      then (if nth0 s 1 \<noteq> CHR ''$'' then CheckClient_loop s1 l rest ClientName
            else CheckClient_loop s1 l rest (name_line s))
      else (let s' = str2lower s
            in if strncmp0 s1 s' (if l < length s' then l else length s')
               then (1, ClientName)
               else CheckClient_loop s1 l rest ClientName))"

definition CheckClient :: "string list \<Rightarrow> string \<Rightarrow> string \<Rightarrow> int \<times> string" where
  "CheckClient cl_register address ClientName =
     (let s1 = str2lower address; l = length s1
      in CheckClient_loop s1 l cl_register ClientName)"

text \<open>
  Lines 340--353 of \<^verbatim>\<open>main\<close>: the global register first, then the local one if no
  client has been found; \<open>None\<close> is a register that could not be opened.
\<close>

definition authenticate :: "string list option \<Rightarrow> string list option \<Rightarrow> string \<Rightarrow> string" where
  "authenticate cl_register cl_register_local address =
     (let ClientName = [];
          ClientName = (case cl_register of
                          Some reg \<Rightarrow> snd (CheckClient reg address ClientName)
                        | None \<Rightarrow> ClientName)
      in if ClientName = [] \<and> cl_register_local \<noteq> None
         then (let ClientName = snd (CheckClient (the cl_register_local) address ClientName)
               in if ClientName \<noteq> [] then ClientName @ ''_local'' else ClientName)
         else ClientName)"

subsection \<open>The main loop\<close>

text \<open>
  One section of the \<^verbatim>\<open>process\<close> script, written when a request is committed:
  the request number (in \<^verbatim>\<open>filename\<close> and in the job names), the client, the
  address, whether the \<^verbatim>\<open>sendmail\<close> line is written, whether the request is logged
  with \<^verbatim>\<open>head -20\<close>, and whether it is the section written at the end of the mail
  (which traps a failing job).
\<close>

record job_section =
  sec_request :: int
  sec_client :: string
  sec_address :: string
  sec_reply :: bool
  sec_head20 :: bool
  sec_at_end :: bool

datatype process_item = Header | Section job_section | Footer

text \<open>
  The variables of \<^verbatim>\<open>main\<close>.  \<open>fo\<close> is the open request file (the lines written to
  it), \<open>None\<close> for \<^verbatim>\<open>NULL\<close>; \<open>s_buf\<close> is the line buffer \<^verbatim>\<open>s\<close>, kept as a buffer because
  \<^verbatim>\<open>s+6\<close> may lie behind the terminator of a short continuation line; \<open>filename\<close>
  is the number in \<^verbatim>\<open>request.%06ld\<close>.
\<close>

record mstate =
  n_requests :: int
  fo :: "string list option"
  has_begin_request :: bool
  has_end_request :: bool
  is_mirror :: bool
  filename :: int
  address :: string
  ClientName :: string
  s_buf :: string
  process :: "process_item list"

record registers =
  cl_register :: "string list option"
  cl_register_local :: "string list option"

definition cstr :: "string \<Rightarrow> string" where
  "cstr buf = takeWhile (\<lambda>c. c \<noteq> NUL) buf"

definition fgets_into :: "string \<Rightarrow> string \<Rightarrow> string" where
  "fgets_into buf l = l @ NUL # drop (Suc (length l)) buf"

text \<open>The section written for the open request (lines 258--282 and 390--419).\<close>

definition emit_section :: "bool \<Rightarrow> mstate \<Rightarrow> mstate" where
  "emit_section at_end st =
     st\<lparr>process := process st @
          [Section \<lparr>sec_request = n_requests st, sec_client = ClientName st,
                    sec_address = address st,
                    sec_reply = (\<not> is_mirror st \<or> has_begin_request st),
                    sec_head20 = is_mirror st, sec_at_end = at_end\<rparr>]\<rparr>"

text \<open>A \<^verbatim>\<open>From \<close> line: settle the mail that is still open, then start the next.\<close>

definition from_line :: "mstate \<Rightarrow> mstate" where
  "from_line st =
     (let st = (case fo st of
                  None \<Rightarrow> st
                | Some _ \<Rightarrow>
                    if \<not> has_begin_request st
                    then st\<lparr>n_requests := n_requests st - 1, fo := None,
                            has_begin_request := False, has_end_request := False,
                            is_mirror := False\<rparr>
                    else (emit_section False st)
                           \<lparr>has_begin_request := False, has_end_request := False,
                            is_mirror := False, fo := None\<rparr>);
          st = st\<lparr>n_requests := n_requests st + 1\<rparr>
      in st\<lparr>filename := n_requests st, fo := Some [], address := []\<rparr>)"

text \<open>
  The \<^verbatim>\<open>while(fgets(s, 80, fi)!=NULL && !strncmp(s, "     ", 5))\<close> loop that looks
  for the address on continuation lines; it returns the buffer and the lines left.
\<close>

fun cont_lines :: "string \<Rightarrow> string list \<Rightarrow> string \<times> string list" where
  "cont_lines buf [] = (buf, [])"
| "cont_lines buf (l # ls) =
     (let buf' = fgets_into buf l
      in if strncmp0 (cstr buf') ''     '' 5
         then (if strchr (cstr buf') (CHR ''@'') \<noteq> None then (buf', ls)
               else cont_lines buf' ls)
         else (buf', ls))"

lemma cont_lines_length: "length (snd (cont_lines buf ls)) \<le> length ls"
  by (induction buf ls rule: cont_lines.induct) (auto simp: Let_def)

text \<open>"Reading the next line from the current request" (lines 366--375).\<close>

definition copy_line :: "mstate \<Rightarrow> mstate" where
  "copy_line st =
     (case fo st of
        None \<Rightarrow> st
      | Some f \<Rightarrow>
          (let s1 = str2lower (compress (cstr (s_buf st)));
               st = (if strncmp0 s1 ''beginrequest'' 12
                     then st\<lparr>has_begin_request := True\<rparr> else st);
               st = st\<lparr>fo := Some (f @ [cstr (s_buf st)])\<rparr>
           in if strncmp0 s1 ''endrequest'' 10 then st\<lparr>has_end_request := True\<rparr> else st))"

text \<open>The \<^verbatim>\<open>while(fgets(s, 80, fi) != NULL)\<close> loop over the lines of the mail file.\<close>

function main_loop :: "registers \<Rightarrow> mstate \<Rightarrow> string list \<Rightarrow> mstate" where
  "main_loop regs st [] = st"
| "main_loop regs st (l # ls) =
     (let st = st\<lparr>s_buf := fgets_into (s_buf st) l\<rparr>
      in if strncmp0 (cstr (s_buf st)) ''From '' 5
         then main_loop regs (copy_line (from_line st)) ls
         else if strncmp0 (cstr (s_buf st)) ''From: '' 6
         then (let r = (if strchr (cstr (s_buf st)) (CHR ''@'') = None
                        then cont_lines (s_buf st) ls else (s_buf st, ls));
                   st = st\<lparr>s_buf := fst r\<rparr>;
                   st = st\<lparr>address := clean_address (isolate (cstr (drop 6 (s_buf st))))\<rparr>;
                   st = st\<lparr>ClientName :=
                           authenticate (cl_register regs) (cl_register_local regs) (address st)\<rparr>
               in if ClientName st = []
                  then main_loop regs
                         (st\<lparr>n_requests := n_requests st - 1, fo := None,
                             has_begin_request := False, has_end_request := False,
                             is_mirror := False\<rparr>) (snd r)
                  else main_loop regs
                         (copy_line (if ClientName st = ''VALDMirrorSite''
                                     then st\<lparr>is_mirror := True\<rparr> else st)) (snd r))
         else main_loop regs (copy_line st) ls)"
  by pat_completeness auto
termination
proof (relation "measure (\<lambda>(regs, st, ls). length ls)", goal_cases)
  case 1
  show ?case by simp
next
  case (2 regs st l ls)
  show ?case by simp
next
  case (3 regs st l ls st' r)
  then show ?case
    using cont_lines_length[of "s_buf st'" ls] by (auto split: if_splits)
next
  case (4 regs st l ls st' r)
  then show ?case
    using cont_lines_length[of "s_buf st'" ls] by (auto split: if_splits)
next
  case (5 regs st l ls)
  show ?case by simp
qed

declare main_loop.simps [simp del]

text \<open>After the loop (lines 377--422): settle the last mail.\<close>

definition finish :: "mstate \<Rightarrow> mstate" where
  "finish st =
     (case fo st of
        None \<Rightarrow> st
      | Some _ \<Rightarrow>
          (if \<not> has_begin_request st then st\<lparr>n_requests := n_requests st - 1\<rparr>
           else emit_section True st)\<lparr>fo := None\<rparr>)"

text \<open>
  \<^verbatim>\<open>main\<close>.  The inputs are the lines of the mail file (\<open>None\<close>: no mail), the two
  registers, and the number in the last-request file (\<open>None\<close>: no such file, for
  which \<^verbatim>\<open>get_last_request_ID\<close> returns -1).  The result is the \<^verbatim>\<open>process\<close> script
  and the number written by \<^verbatim>\<open>put_last_request_ID\<close>, \<open>None\<close> when \<^verbatim>\<open>main\<close> returns
  before writing it.
\<close>

definition get_last_request_ID :: "int option \<Rightarrow> int" where
  "get_last_request_ID stored = (case stored of Some n \<Rightarrow> n | None \<Rightarrow> -1)"

definition initial_counter :: "int option \<Rightarrow> int" where
  "initial_counter stored =
     (let n_requests = get_last_request_ID stored in if n_requests < 0 then 0 else n_requests)"

definition main :: "string list option \<Rightarrow> registers \<Rightarrow> int option
    \<Rightarrow> process_item list \<times> int option" where
  "main mail regs stored =
     (case mail of
        None \<Rightarrow> ([], None)
      | Some lines \<Rightarrow>
          if cl_register regs = None \<and> cl_register_local regs = None
          then ([Header], None)
          else (let st = \<lparr>n_requests = initial_counter stored, fo = None,
                           has_begin_request = False, has_end_request = False,
                           is_mirror = False, filename = 0, address = [], ClientName = [],
                           s_buf = [], process = [Header]\<rparr>;
                    st = finish (main_loop regs st lines)
                in (process st @ [Footer], Some (n_requests st))))"

text \<open>The committed requests of a run: the sections of its \<^verbatim>\<open>process\<close> script.\<close>

definition committed :: "process_item list \<Rightarrow> nat" where
  "committed p = length (filter (\<lambda>i. case i of Section _ \<Rightarrow> True | _ \<Rightarrow> False) p)"

subsection \<open>Notions used to state the properties of the mail splitter\<close>

text \<open>
  The extraction of the address as the specification words it: after the quoted
  and parenthesised text is stripped, cut at the first of \<^verbatim>\<open>></\<close>, space and newline,
  and keep what follows a \<^verbatim>\<open><\<close>.
\<close>

definition claimed_isolate :: "string \<Rightarrow> string" where
  "claimed_isolate hdr =
     (let t = swallow_quotes (swallow_quotes hdr (CHR 0x22) (CHR 0x22)) (CHR ''('') (CHR '')'');
          u = takeWhile (\<lambda>c. c \<noteq> CHR ''>'' \<and> c \<noteq> CHR '' '' \<and> c \<noteq> CHR 0x0A) t
      in if CHR ''<'' \<in> set u then tl (dropWhile (\<lambda>c. c \<noteq> CHR ''<'') u) else u)"

text \<open>
  A register line is a comment when it starts with \<^verbatim>\<open>#\<close>.  An address matches a line
  when, both in lower case, one is a prefix of the other: equality on the length of
  the shorter.
\<close>

definition is_comment :: "string \<Rightarrow> bool" where
  "is_comment line = (nth0 line 0 = CHR ''#'')"

definition matches :: "string \<Rightarrow> string \<Rightarrow> bool" where
  "matches addr line =
     (prefix (str2lower addr) (str2lower line) \<or> prefix (str2lower line) (str2lower addr))"

text \<open>The client named by the last \<^verbatim>\<open>#$\<close> line of a block of lines, \<open>cn\<close> if there is none.\<close>

definition named_client :: "string list \<Rightarrow> string \<Rightarrow> string" where
  "named_client block cn =
     fold (\<lambda>line cn. if is_comment line \<and> nth0 line 1 = CHR ''$'' then name_line line else cn)
          block cn"

text \<open>The lines of a register before the first line that the address matches.\<close>

definition before_match :: "string list \<Rightarrow> string \<Rightarrow> string list" where
  "before_match reg addr = takeWhile (\<lambda>line. is_comment line \<or> \<not> matches addr line) reg"

subsection \<open>Example mail and registers\<close>

definition ex_register :: "string list" where
  "ex_register = [''# VALD clients\<newline>'', ''#$ Alice Global\<newline>'', ''alice@example.org\<newline>'']"

definition ex_register_local :: "string list" where
  "ex_register_local = [''#$ Bob Local\<newline>'', ''bob@example.org\<newline>'']"

definition ex_registers :: registers where
  "ex_registers = \<lparr>cl_register = Some ex_register, cl_register_local = Some ex_register_local\<rparr>"

text \<open>One request from a registered client.\<close>

definition ex_mail_ok :: "string list" where
  "ex_mail_ok =
     [''From alice@example.org Thu Jan  1 00:00:00 2026\<newline>'',
      ''From: Alice <alice@example.org>\<newline>'',
      ''\<newline>'',
      ''begin request\<newline>'',
      ''extract all\<newline>'',
      ''5000,5010\<newline>'',
      ''end request\<newline>'']"

text \<open>
  One mail from an unregistered sender, whose text quotes the header of another mail.
\<close>

definition ex_mail_quoted :: "string list" where
  "ex_mail_quoted =
     [''From mallory@nowhere.org Thu Jan  1 00:00:00 2026\<newline>'',
      ''From: mallory@nowhere.org\<newline>'',
      ''Subject: Fwd\<newline>'',
      ''\<newline>'',
      ''From: carol@elsewhere.org\<newline>'',
      ''begin request\<newline>'',
      ''end request\<newline>'']"

section \<open>The request parser (parserequest.c)\<close>

subsection \<open>Configuration flags and \<^verbatim>\<open>SetKeyword\<close>\<close>

text \<open>The global flags of parserequest.c.\<close>

record config =
  PersonalConfiguration :: int
  LongFormat :: int
  HaveRadiativeDamping :: int
  HaveStarkDamping :: int
  HaveVanderWaalsDamping :: int
  HaveLande :: int
  HaveTermDesignation :: int
  ExtendedWaals :: int
  ZeemanPattern :: int
  StarkBroadening :: int
  FTPretrieval :: int
  Energy_in_inv_cm :: int
  Wavelength_in_vac :: int
  Wavelength_units :: int
  Isotopic_scaling_of_gf :: int
  HFS_splitting :: int
  Personal_VALD_CONFIG :: string

text \<open>The initial values of the globals.\<close>

definition initial_config :: config where
  "initial_config =
     \<lparr> PersonalConfiguration = 0, LongFormat = 0, HaveRadiativeDamping = 0,
       HaveStarkDamping = 0, HaveVanderWaalsDamping = 0, HaveLande = 0,
       HaveTermDesignation = 0, ExtendedWaals = 0, ZeemanPattern = 0, StarkBroadening = 0,
       FTPretrieval = 0, Energy_in_inv_cm = 0, Wavelength_in_vac = 0, Wavelength_units = 0,
       Isotopic_scaling_of_gf = 1, HFS_splitting = 0, Personal_VALD_CONFIG = [] \<rparr>"

text \<open>
  What \<^verbatim>\<open>SetKeyword\<close> asks of the system when it looks for the client's
  configuration file and creates it from the default one: whether each \<^verbatim>\<open>malloc\<close>
  succeeds, whether the directory holds the file, whether the default file opens
  for reading and the personal one for writing.
\<close>

record filesys =
  alloc_dir :: bool
  personal_exists :: bool
  alloc_default :: bool
  default_readable :: bool
  alloc_personal :: bool
  personal_writable :: bool

text \<open>
  The lines that the parser writes to the job script, by kind; each constructor
  stands for the \<^verbatim>\<open>fprintf\<close> calls of one message or one pipeline, with the
  text that varies.  The request number, which every line carries, is left out.
\<close>

datatype job_line =
    EchoWrongPath
  | EchoConfigCreated string
  | WarnUnknownOption string
  | FailCannotReadRange
  | FailBadRange
  | RunPreselect bool bool
  | RmPresIn
  | WarnNeverHeard string

text \<open>
  One test \<^verbatim>\<open>if(!strncmp(str2upper(s1), kw, n)) { flag = value; *s1='\0'; }\<close>:
  \<^verbatim>\<open>str2upper\<close> converts \<^verbatim>\<open>s1\<close> in place whether or not the keyword matches.
\<close>

definition keyword :: "string \<Rightarrow> nat \<Rightarrow> (config \<Rightarrow> config) \<Rightarrow> string \<times> config \<Rightarrow> string \<times> config" where
  "keyword kw n set_flag st =
     (let s1 = str2upper (fst st)
      in if strncmp0 s1 kw n then ([], set_flag (snd st)) else (s1, snd st))"

text \<open>The tests that follow \<^verbatim>\<open>DEFAULTCONFIGURATION\<close>, in the order of the source.\<close>

definition SetKeyword_rest :: "string \<times> config \<Rightarrow> string \<times> config" where
  "SetKeyword_rest st =
     (let st = keyword ''HAVERAD'' 7 (\<lambda>c. c\<lparr>HaveRadiativeDamping := 1\<rparr>) st;
          st = keyword ''HAVESTARK'' 9 (\<lambda>c. c\<lparr>HaveStarkDamping := 1\<rparr>) st;
          st = keyword ''HAVEWAALS'' 9 (\<lambda>c. c\<lparr>HaveVanderWaalsDamping := 1\<rparr>) st;
          st = keyword ''HAVELANDE'' 9 (\<lambda>c. c\<lparr>HaveLande := 1\<rparr>) st;
          st = keyword ''HAVETERM'' 8 (\<lambda>c. c\<lparr>HaveTermDesignation := 1\<rparr>) st;
          st = keyword ''DEFAULTWAALS'' 8 (\<lambda>c. c\<lparr>ExtendedWaals := 0\<rparr>) st;
          st = keyword ''EXTENDEDWAALS'' 9 (\<lambda>c. c\<lparr>ExtendedWaals := 1\<rparr>) st;
          st = keyword ''ZEEMANPATTERN'' 6 (\<lambda>c. c\<lparr>ZeemanPattern := 1\<rparr>) st;
          st = keyword ''STARKBROADENING'' 5 (\<lambda>c. c\<lparr>StarkBroadening := 1\<rparr>) st;
          st = keyword ''VIAFTP'' 6 (\<lambda>c. c\<lparr>FTPretrieval := 1\<rparr>) st;
          st = keyword ''ENERGYUNITEV'' 11 (\<lambda>c. c\<lparr>Energy_in_inv_cm := 0\<rparr>) st;
          st = keyword ''ENERGYUNIT1CM'' 12 (\<lambda>c. c\<lparr>Energy_in_inv_cm := 1\<rparr>) st;
          st = keyword ''MEDIUMAIR'' 7 (\<lambda>c. c\<lparr>Wavelength_in_vac := 0\<rparr>) st;
          st = keyword ''MEDIUMVACUUM'' 7 (\<lambda>c. c\<lparr>Wavelength_in_vac := 1\<rparr>) st;
          st = keyword ''WAVEUNITANGSTROM'' 9 (\<lambda>c. c\<lparr>Wavelength_units := 0\<rparr>) st;
          st = keyword ''WAVEUNITNM'' 9 (\<lambda>c. c\<lparr>Wavelength_units := 1\<rparr>) st;
          st = keyword ''WAVEUNIT1CM'' 10 (\<lambda>c. c\<lparr>Wavelength_units := 2\<rparr>) st;
          st = keyword ''ISOTOPICSCALINGON'' 17 (\<lambda>c. c\<lparr>Isotopic_scaling_of_gf := 1\<rparr>) st;
          st = keyword ''ISOTOPICSCALINGOFF'' 18 (\<lambda>c. c\<lparr>Isotopic_scaling_of_gf := 0\<rparr>) st;
          st = keyword ''HFSSPLITTING'' 8 (\<lambda>c. c\<lparr>HFS_splitting := 1\<rparr>) st;
          st = keyword ''NOHFSSPLITTING'' 10 (\<lambda>c. c\<lparr>HFS_splitting := 0\<rparr>) st
      in st)"

text \<open>\<^verbatim>\<open>DEFAULTCONFIGURATION\<close> returns at once; the other tests follow it.\<close>

definition SetKeyword_default :: "string \<times> config \<Rightarrow> string \<times> config" where
  "SetKeyword_default st =
     (let s1 = str2upper (fst st)
      in if strncmp0 s1 ''DEFAULTCONFIGURATION'' 10
         then ([], (snd st)\<lparr>PersonalConfiguration := 0\<rparr>)
         else SetKeyword_rest (s1, snd st))"

text \<open>
  \<^verbatim>\<open>SetKeyword\<close>.  The result is the token \<^verbatim>\<open>s1\<close>, the flags, the file system and
  the lines written to the job script.
\<close>

definition SetKeyword :: "filesys \<Rightarrow> string \<Rightarrow> config
    \<Rightarrow> string \<times> config \<times> filesys \<times> job_line list" where
  "SetKeyword fs tok cfg =
     (let s1 = str2upper tok;
          st = (if strncmp0 s1 ''LONGFORMAT'' 4 then ([], cfg\<lparr>LongFormat := 1\<rparr>)
                else (let s1 = str2upper s1
                      in if strncmp0 s1 ''SHORTFORMAT'' 5 then ([], cfg\<lparr>LongFormat := 0\<rparr>)
                         else (s1, cfg)));
          s1 = str2upper (fst st); cfg = snd st
      in if strncmp0 s1 ''PERSONALCONFIGURATION'' 6
         then (let cfg = cfg\<lparr>PersonalConfiguration := 1\<rparr>; s1 = [];
                   failed = ([], cfg\<lparr>PersonalConfiguration := 0\<rparr>, fs, [EchoWrongPath])
               in if \<not> alloc_dir fs then failed
                  else if personal_exists fs then ([], cfg, fs, [])
                  else if \<not> alloc_default fs then failed
                  else if \<not> default_readable fs then failed
                  else if \<not> alloc_personal fs then failed
                  else if \<not> personal_writable fs then failed
                  else (let st = SetKeyword_default (s1, cfg)
                        in (fst st, snd st, fs\<lparr>personal_exists := True\<rparr>,
                            [EchoConfigCreated (Personal_VALD_CONFIG cfg)])))
         else (let st = SetKeyword_default (s1, cfg) in (fst st, snd st, fs, [])))"

subsection \<open>\<^verbatim>\<open>ExtractAll\<close>\<close>

text \<open>\<^verbatim>\<open>compress(s1, s, nn)\<close> of parserequest.c.\<close>

definition compress_n :: "nat \<Rightarrow> string \<Rightarrow> string" where
  "compress_n nn line = compress_loop (take nn line)"

definition EXIT_SUCCESS :: int where
  "EXIT_SUCCESS = 0"

definition EXIT_FAILURE :: int where
  "EXIT_FAILURE = 1"

text \<open>
  The file \<^verbatim>\<open>pres_in.NNNNNN\<close> that \<^verbatim>\<open>ExtractAll\<close> writes: the range, which of the
  two line caps it names (\<^verbatim>\<open>MAX_LINES_PER_FTP\<close> or \<^verbatim>\<open>MAX_LINES_PER_REQUEST\<close>, both
  declared in a header outside the sources), whether it names the personal
  configuration file, and the thirteen flag numbers.
\<close>

record pres_in =
  p_wlleft :: real
  p_wlright :: real
  p_ftp_cap :: bool
  p_personal :: bool
  p_flags :: "int list"

definition flag_numbers :: "config \<Rightarrow> int list" where
  "flag_numbers c =
     [LongFormat c + 3 * Energy_in_inv_cm c, HaveRadiativeDamping c, HaveStarkDamping c,
      HaveVanderWaalsDamping c, HaveLande c, HaveTermDesignation c, ExtendedWaals c,
      ZeemanPattern c, StarkBroadening c, Wavelength_in_vac c, Wavelength_units c,
      Isotopic_scaling_of_gf c, HFS_splitting c]"

text \<open>The test \<^verbatim>\<open>!isdigit(*s1) && *s1 != '.' && *s1 != '+' && *s1 != '-'\<close>.\<close>

definition not_numeric :: "string \<Rightarrow> bool" where
  "not_numeric s1 =
     (\<not> isdigit (nth0 s1 0) \<and> nth0 s1 0 \<noteq> CHR ''.'' \<and> nth0 s1 0 \<noteq> CHR ''+'' \<and>
      nth0 s1 0 \<noteq> CHR ''-'')"

text \<open>
  The state of the parser between lines: the file system, the flags, and the job
  script written so far.
\<close>

record pstate =
  p_fs :: filesys
  p_cfg :: config
  p_job :: "job_line list"

text \<open>
  \<^verbatim>\<open>ExtractAll\<close>: the loop over the lines that \<^verbatim>\<open>fgets(s, 80, fi)\<close> returns.  The
  parameter \<open>scan\<close> is \<^verbatim>\<open>sscanf(s1, "%lg%*1s%lg", ...)\<close>: \<open>Some\<close> of the two numbers
  when it returns 2.  The result is the exit code, the state, and the file
  \<^verbatim>\<open>pres_in\<close> if it was written.
\<close>

fun ExtractAll :: "(string \<Rightarrow> (real \<times> real) option) \<Rightarrow> pstate \<Rightarrow> string list
    \<Rightarrow> int \<times> pstate \<times> pres_in option" where
  "ExtractAll scan st [] =
     (EXIT_FAILURE, st\<lparr>p_job := p_job st @ [FailCannotReadRange, RmPresIn]\<rparr>, None)"
| "ExtractAll scan st (line # rest) =
     (let r = SetKeyword (p_fs st) (compress_n 80 line) (p_cfg st);
          s1 = fst r;
          st = \<lparr>p_fs = fst (snd (snd r)), p_cfg = fst (snd r),
                p_job = p_job st @ snd (snd (snd r))\<rparr>
      in if length s1 = 0 then ExtractAll scan st rest
         else if not_numeric s1
         then ExtractAll scan (st\<lparr>p_job := p_job st @ [WarnUnknownOption s1]\<rparr>) rest
         else (case scan s1 of
                 None \<Rightarrow> (EXIT_FAILURE, st\<lparr>p_job := p_job st @ [FailCannotReadRange]\<rparr>, None)
               | Some (wlleft, wlright) \<Rightarrow>
                   if wlleft > wlright \<or> wlleft \<le> 0
                   then (EXIT_FAILURE, st\<lparr>p_job := p_job st @ [FailBadRange]\<rparr>, None)
                   else (EXIT_SUCCESS,
                         st\<lparr>p_job := p_job st @
                              [RunPreselect (HFS_splitting (p_cfg st) \<noteq> 0)
                                            (FTPretrieval (p_cfg st) \<noteq> 0), RmPresIn]\<rparr>,
                         Some \<lparr>p_wlleft = wlleft, p_wlright = wlright,
                               p_ftp_cap = (FTPretrieval (p_cfg st) \<noteq> 0),
                               p_personal = (PersonalConfiguration (p_cfg st) \<noteq> 0),
                               p_flags = flag_numbers (p_cfg st)\<rparr>)))"

declare ExtractAll.simps [simp del]

subsection \<open>Notions used to state the properties of \<^verbatim>\<open>SetKeyword\<close>\<close>

text \<open>
  The keywords with the length of the prefix that recognises each and the flag it
  sets, \<^verbatim>\<open>PERSONALCONFIGURATION\<close> apart (its effect depends on the file system).
\<close>

definition keyword_table :: "(string \<times> nat \<times> (config \<Rightarrow> config)) list" where
  "keyword_table =
     [(''LONGFORMAT'', 4, \<lambda>c. c\<lparr>LongFormat := 1\<rparr>),
      (''SHORTFORMAT'', 5, \<lambda>c. c\<lparr>LongFormat := 0\<rparr>),
      (''DEFAULTCONFIGURATION'', 10, \<lambda>c. c\<lparr>PersonalConfiguration := 0\<rparr>),
      (''HAVERAD'', 7, \<lambda>c. c\<lparr>HaveRadiativeDamping := 1\<rparr>),
      (''HAVESTARK'', 9, \<lambda>c. c\<lparr>HaveStarkDamping := 1\<rparr>),
      (''HAVEWAALS'', 9, \<lambda>c. c\<lparr>HaveVanderWaalsDamping := 1\<rparr>),
      (''HAVELANDE'', 9, \<lambda>c. c\<lparr>HaveLande := 1\<rparr>),
      (''HAVETERM'', 8, \<lambda>c. c\<lparr>HaveTermDesignation := 1\<rparr>),
      (''DEFAULTWAALS'', 8, \<lambda>c. c\<lparr>ExtendedWaals := 0\<rparr>),
      (''EXTENDEDWAALS'', 9, \<lambda>c. c\<lparr>ExtendedWaals := 1\<rparr>),
      (''ZEEMANPATTERN'', 6, \<lambda>c. c\<lparr>ZeemanPattern := 1\<rparr>),
      (''STARKBROADENING'', 5, \<lambda>c. c\<lparr>StarkBroadening := 1\<rparr>),
      (''VIAFTP'', 6, \<lambda>c. c\<lparr>FTPretrieval := 1\<rparr>),
      (''ENERGYUNITEV'', 11, \<lambda>c. c\<lparr>Energy_in_inv_cm := 0\<rparr>),
      (''ENERGYUNIT1CM'', 12, \<lambda>c. c\<lparr>Energy_in_inv_cm := 1\<rparr>),
      (''MEDIUMAIR'', 7, \<lambda>c. c\<lparr>Wavelength_in_vac := 0\<rparr>),
      (''MEDIUMVACUUM'', 7, \<lambda>c. c\<lparr>Wavelength_in_vac := 1\<rparr>),
      (''WAVEUNITANGSTROM'', 9, \<lambda>c. c\<lparr>Wavelength_units := 0\<rparr>),
      (''WAVEUNITNM'', 9, \<lambda>c. c\<lparr>Wavelength_units := 1\<rparr>),
      (''WAVEUNIT1CM'', 10, \<lambda>c. c\<lparr>Wavelength_units := 2\<rparr>),
      (''ISOTOPICSCALINGON'', 17, \<lambda>c. c\<lparr>Isotopic_scaling_of_gf := 1\<rparr>),
      (''ISOTOPICSCALINGOFF'', 18, \<lambda>c. c\<lparr>Isotopic_scaling_of_gf := 0\<rparr>),
      (''HFSSPLITTING'', 8, \<lambda>c. c\<lparr>HFS_splitting := 1\<rparr>),
      (''NOHFSSPLITTING'', 10, \<lambda>c. c\<lparr>HFS_splitting := 0\<rparr>)]"





definition ex_filesys :: filesys where
  "ex_filesys = \<lparr>alloc_dir = True, personal_exists = False, alloc_default = True,
                  default_readable = True, alloc_personal = True, personal_writable = True\<rparr>"

text \<open>The tests of a list of keywords, one after the other.\<close>

definition apply_table :: "(string \<times> nat \<times> (config \<Rightarrow> config)) list \<Rightarrow> string \<times> config \<Rightarrow> string \<times> config" where
  "apply_table T st = fold (\<lambda>r. keyword (fst r) (fst (snd r)) (snd (snd r))) T st"


subsection \<open>Notions and examples for \<^verbatim>\<open>ExtractAll\<close>\<close>


text \<open>A scanner that reads two of the lines used in the examples.\<close>

definition ex_scan :: "string \<Rightarrow> (real \<times> real) option" where
  "ex_scan s1 = (if s1 = ''5000,5000'' then Some (5000, 5000)
                 else if s1 = ''5010,5000'' then Some (5010, 5000)
                 else None)"

definition ex_pstate :: pstate where
  "ex_pstate = \<lparr>p_fs = ex_filesys, p_cfg = initial_config, p_job = []\<rparr>"

subsection \<open>The abundance block of \<^verbatim>\<open>ExtractStellar\<close>\<close>

text \<open>The table of \<^verbatim>\<open>GetElementNumber\<close>.\<close>

definition elements :: "string list" where
  "elements =
     [''H '', ''HE'', ''LI'', ''BE'', ''B '', ''C '', ''N '', ''O '', ''F '', ''NE'',
      ''NA'', ''MG'', ''AL'', ''SI'', ''P '', ''S '', ''CL'', ''AR'', ''K '', ''CA'',
      ''SC'', ''TI'', ''V '', ''CR'', ''MN'', ''FE'', ''CO'', ''NI'', ''CU'', ''ZN'',
      ''GA'', ''GE'', ''AS'', ''SE'', ''BR'', ''KR'', ''RB'', ''SR'', ''Y '', ''ZR'',
      ''NB'', ''MO'', ''TC'', ''RU'', ''RH'', ''PD'', ''AG'', ''CD'', ''IN'', ''SN'',
      ''SB'', ''TE'', ''I '', ''XE'', ''CS'', ''BA'', ''LA'', ''CE'', ''PR'', ''ND'',
      ''PM'', ''SM'', ''EU'', ''GD'', ''TB'', ''DY'', ''HO'', ''ER'', ''TM'', ''YB'',
      ''LU'', ''HF'', ''TA'', ''W '', ''RE'', ''OS'', ''IR'', ''PT'', ''AU'', ''HG'',
      ''TL'', ''PB'', ''BI'', ''PO'', ''AT'', ''RN'', ''FR'', ''RA'', ''AC'', ''TH'',
      ''PA'', ''U '', ''NP'', ''PU'', ''AM'', ''CM'', ''BK'', ''CF'', ''ES'']"

text \<open>The loop \<^verbatim>\<open>for(i=0; i<99; i++)\<close>: the first index whose name matches on 2 characters.\<close>

fun element_index :: "string \<Rightarrow> string list \<Rightarrow> nat \<Rightarrow> nat option" where
  "element_index elname [] i = None"
| "element_index elname (el # els) i =
     (if strncmp0 elname el 2 then Some i else element_index elname els (Suc i))"

text \<open>
  \<^verbatim>\<open>GetElementNumber\<close>: the number, and the name as the function leaves it in the
  caller's buffer (upper case, the second character lowered when an element is
  found).
\<close>

definition GetElementNumber :: "string \<Rightarrow> int \<times> string" where
  "GetElementNumber elname =
     (let e = str2upper elname
      in case element_index e elements 0 of
           Some i \<Rightarrow> (int i + 1, if length e > 1 then e[1 := tolower (e ! 1)] else e)
         | None \<Rightarrow> (-1, e))"

text \<open>The step to the text after the next comma, \<^verbatim>\<open>NULL\<close> if nothing follows it.\<close>

definition advance :: "string \<Rightarrow> string option" where
  "advance next =
     (case strchr next (CHR '','') of
        None \<Rightarrow> None
      | Some i \<Rightarrow> (let n = drop (Suc i) next in if n = [] then None else Some n))"

text \<open>
  \<^verbatim>\<open>CheckAbund\<close> on a non-null \<^verbatim>\<open>next\<close>; the result is the new \<^verbatim>\<open>next\<close> and \<^verbatim>\<open>outs\<close>.
  The parameter \<open>fmt2\<close> is the number as \<^verbatim>\<open>sprintf\<close>'s \<^verbatim>\<open>%.2f\<close> prints what
  \<^verbatim>\<open>sscanf\<close>'s \<^verbatim>\<open>%lg\<close> reads at the given text.  A character read behind the
  terminator of \<^verbatim>\<open>next\<close> is taken as NUL: the C code reads what an earlier line left
  in the buffer there, and whatever it reads the token ends on the unknown-element
  path with the same \<^verbatim>\<open>outs\<close>, since no element name holds a NUL.
\<close>

definition CheckAbund :: "(string \<Rightarrow> string) \<Rightarrow> string \<Rightarrow> string option \<times> string" where
  "CheckAbund fmt2 next =
     (let unknown = (case strchr next (CHR '','') of
                       None \<Rightarrow> None | Some i \<Rightarrow> Some (drop (Suc i) next),
                     take 3 next)
      in if nth0 next 1 = CHR '':''
         then (let g = GetElementNumber [nth0 next 0, CHR '' '']
               in if fst g > 0
                  then (advance next,
                        take 2 (CHR 0x27 # snd g) @ '':'' @ fmt2 (drop 2 next) @ [CHR 0x27, CHR '',''])
                  else unknown)
         else if strncmp0 next ''MH:'' 3 \<or> strncmp0 next ''m/h:'' 4
         then (advance next, CHR 0x27 # ''M/H:'' @ fmt2 (drop 3 next) @ [CHR 0x27, CHR '',''])
         else if nth0 next 2 = CHR '':''
         then (let g = GetElementNumber [nth0 next 0, nth0 next 1]
               in if fst g > 0
                  then (advance next,
                        take 3 (CHR 0x27 # snd g) @ '':'' @ fmt2 (drop 3 next) @ [CHR 0x27, CHR '',''])
                  else unknown)
         else unknown)"

lemma CheckAbund_shorter: "fst (CheckAbund fmt2 next) = Some n \<Longrightarrow> length n < length next"
proof -
  have "strchr t c = Some i \<Longrightarrow> i < length t" for t :: string and c i
    by (induction t arbitrary: i) (auto split: if_splits)
  then have "(case strchr next (CHR '','') of None \<Rightarrow> None | Some i \<Rightarrow> Some (drop (Suc i) next)) = Some n
      \<Longrightarrow> length n < length next"
    by (fastforce split: option.splits)
  moreover from this have "advance next = Some n \<Longrightarrow> length n < length next"
    by (auto simp: advance_def Let_def split: option.splits if_splits)
  moreover assume "fst (CheckAbund fmt2 next) = Some n"
  ultimately show ?thesis
    by (auto simp: CheckAbund_def Let_def split: if_splits)
qed

text \<open>
  A text file being written: the lines finished by a newline, and the characters
  of the line not yet finished.
\<close>

record textfile =
  finished :: "string list"
  current :: string

definition fputs :: "string \<Rightarrow> textfile \<Rightarrow> textfile" where
  "fputs text f = f\<lparr>current := current f @ text\<rparr>"

definition newline :: "textfile \<Rightarrow> textfile" where
  "newline f = \<lparr>finished = finished f @ [current f], current = []\<rparr>"

text \<open>
  The state of the abundance loop: the parser's state, the file \<^verbatim>\<open>select.input\<close>
  and the counter \<^verbatim>\<open>i\<close>.
\<close>

record astate =
  a_fs :: filesys
  a_cfg :: config
  a_job :: "job_line list"
  a_fo1 :: textfile
  a_i :: nat

text \<open>The body of \<^verbatim>\<open>while(next!=NULL)\<close> after the call of \<^verbatim>\<open>CheckAbund\<close>.\<close>

definition abund_token :: "string \<Rightarrow> astate \<Rightarrow> astate" where
  "abund_token outs st =
     (if length outs \<ge> 5
      then (let st = (if a_i st > 66 then st\<lparr>a_fo1 := newline (a_fo1 st), a_i := 0\<rparr> else st)
            in st\<lparr>a_fo1 := fputs outs (a_fo1 st), a_i := a_i st + length outs\<rparr>)
      else st\<lparr>a_job := a_job st @ [WarnNeverHeard outs]\<rparr>)"

function abund_tokens :: "(string \<Rightarrow> string) \<Rightarrow> string \<Rightarrow> astate \<Rightarrow> astate" where
  "abund_tokens fmt2 next st =
     (let r = CheckAbund fmt2 next; st = abund_token (snd r) st
      in case fst r of None \<Rightarrow> st | Some n \<Rightarrow> abund_tokens fmt2 n st)"
  by pat_completeness auto
termination
  by (relation "measure (\<lambda>(fmt2, next, st). length next)") (auto simp: CheckAbund_shorter)

declare abund_tokens.simps [simp del]








subsection \<open>Notions used to state the properties of the abundance block\<close>



section \<open>Properties of the binary decoder\<close>

subsection \<open>Bisection\<close>

lemma directory_inv_nth:
  assumes "directory_inv D"
  shows "a < length D \<Longrightarrow> wl1 (D ! a) \<le> wl2 (D ! a)"
    and "a < b \<Longrightarrow> b < length D \<Longrightarrow> wl2 (D ! a) \<le> wl1 (D ! b)"
    and "a \<le> b \<Longrightarrow> b < length D \<Longrightarrow> wl1 (D ! a) \<le> wl1 (D ! b)"
proof -
  from assms have A: "\<forall>n<length D. wl1 (D ! n) \<le> wl2 (D ! n)"
    and B: "\<forall>i j. i < j \<longrightarrow> j < length D \<longrightarrow> wl1 (D ! i) \<le> wl1 (D ! j) \<and> wl2 (D ! i) \<le> wl1 (D ! j)"
    by (simp_all add: directory_inv_def list_all_length sorted_wrt_iff_nth_less)
  show "a < length D \<Longrightarrow> wl1 (D ! a) \<le> wl2 (D ! a)" using A by simp
  show "a < b \<Longrightarrow> b < length D \<Longrightarrow> wl2 (D ! a) \<le> wl1 (D ! b)" using B by simp
  show "a \<le> b \<Longrightarrow> b < length D \<Longrightarrow> wl1 (D ! a) \<le> wl1 (D ! b)"
    using B by (cases "a = b") simp_all
qed

lemma bisect_inv:
  assumes "bisect D wave1 i j = (i', j')" "i \<le> j" "j < length D" "wl1 (D ! i) \<le> wave1"
    "j = length D - 1 \<or> wave1 < wl1 (D ! j)"
  shows "i' \<le> j' \<and> j' < length D \<and> wl1 (D ! i') \<le> wave1 \<and>
         (j' = length D - 1 \<or> wave1 < wl1 (D ! j')) \<and> j' - i' \<le> 1 \<and> (i < j \<longrightarrow> i' < j')"
  using assms
proof (induction D wave1 i j rule: bisect.induct)
  case (1 D wave1 i j)
  show ?case
  proof (cases "j - i > 1")
    case False
    with "1.prems" show ?thesis by (simp add: bisect.simps)
  next
    case True
    define k where "k = (i + j) div 2"
    have k: "i < k" "k < j" using True by (simp_all add: k_def)
    show ?thesis
    proof (cases "wave1 < wl1 (D ! k)")
      case lt: True
      have "bisect D wave1 i k = (i', j')"
        using "1.prems"(1) True lt by (simp add: bisect.simps[of D wave1 i j] k_def Let_def)
      from "1.IH"(1)[OF True k_def lt this] k "1.prems" lt show ?thesis by simp
    next
      case ge: False
      have "bisect D wave1 k j = (i', j')"
        using "1.prems"(1) True ge by (simp add: bisect.simps[of D wave1 i j] k_def Let_def)
      from "1.IH"(2)[OF True k_def ge this] k "1.prems" ge show ?thesis by simp
    qed
  qed
qed

lemma locate_None:
  "D \<noteq> [] \<Longrightarrow> locate D wave1 wave2 = None \<longleftrightarrow> (wave1 > wl2 (last D) \<or> wave2 < wl1 (hd D))"
  by (cases "bisect D wave1 0 (length D - 1)")
     (simp add: locate_def Let_def last_conv_nth hd_conv_nth)

lemma locate_Some:
  assumes D: "D \<noteq> []" "directory_inv D" and loc: "locate D wave1 wave2 = Some k"
  shows "k < length D \<and>
    ((\<exists>m<length D. wl1 (D ! m) \<le> wave1 \<and> wave1 \<le> wl2 (D ! m))
         \<longrightarrow> wl1 (D ! k) \<le> wave1 \<and> wave1 \<le> wl2 (D ! k)) \<and>
    (\<not> (\<exists>m<length D. wl1 (D ! m) \<le> wave1 \<and> wave1 \<le> wl2 (D ! m))
         \<longrightarrow> wave1 < wl1 (D ! k) \<and> (\<forall>m<k. \<not> wave1 < wl1 (D ! m)))"
proof -
  note inv = directory_inv_nth[OF D(2)]
  have n: "0 < length D" using D by simp
  have notnone: "\<not> (wave1 > wl2 (D ! (length D - 1)) \<or> wave2 < wl1 (D ! 0))"
    using loc by (auto simp: locate_def Let_def split: if_splits)
  show ?thesis
  proof (cases "wave1 < wl1 (D ! 0)")
    case True
    then have k0: "k = 0" using loc notnone by (simp add: locate_def Let_def)
    have "\<not> (\<exists>m<length D. wl1 (D ! m) \<le> wave1 \<and> wave1 \<le> wl2 (D ! m))"
    proof
      assume "\<exists>m<length D. wl1 (D ! m) \<le> wave1 \<and> wave1 \<le> wl2 (D ! m)"
      then obtain m where "m < length D" "wl1 (D ! m) \<le> wave1" by blast
      with inv(3)[of 0 m] True show False by simp
    qed
    then show ?thesis using k0 n True by simp
  next
    case False
    obtain i' j' where b: "bisect D wave1 0 (length D - 1) = (i', j')" by force
    from bisect_inv[OF b] False n
    have I: "i' \<le> j'" "j' < length D" "wl1 (D ! i') \<le> wave1"
      "j' = length D - 1 \<or> wave1 < wl1 (D ! j')" "j' - i' \<le> 1" by simp_all
    have k: "k = (if wave1 > wl2 (D ! i') then j' else i')"
      using loc notnone False b by (simp add: locate_def Let_def)
    have c1: "k < length D" using k I by simp
    have c2: "wl1 (D ! k) \<le> wave1 \<and> wave1 \<le> wl2 (D ! k)"
      if "\<exists>m<length D. wl1 (D ! m) \<le> wave1 \<and> wave1 \<le> wl2 (D ! m)"
    proof -
      from that obtain m where m: "m < length D" "wl1 (D ! m) \<le> wave1" "wave1 \<le> wl2 (D ! m)"
        by blast
      show ?thesis
      proof (cases "wave1 > wl2 (D ! i')")
        case False then show ?thesis using k I by simp
      next
        case gt: True
        have "m \<noteq> i'" using gt m by auto
        moreover have "\<not> m < i'" using inv(2)[of m i'] inv(1)[of i'] I gt m by force
        ultimately have mi: "i' < m" by simp
        then have ij: "j' = Suc i'" using I m notnone gt by (cases "i' = j'") auto
        have "\<not> j' < m" using inv(2)[of j' m] inv(1)[of j'] I m by force
        then have "m = j'" using mi ij by simp
        then show ?thesis using k gt m by simp
      qed
    qed
    have c3: "wave1 < wl1 (D ! k) \<and> (\<forall>m<k. \<not> wave1 < wl1 (D ! m))"
      if no: "\<not> (\<exists>m<length D. wl1 (D ! m) \<le> wave1 \<and> wave1 \<le> wl2 (D ! m))"
    proof -
      have gt: "wave1 > wl2 (D ! i')" using no I by force
      then have kj: "k = j'" using k by simp
      have ne: "i' \<noteq> j'" using gt notnone I no by force
      then have ij: "j' = Suc i'" using I by simp
      have "wave1 < wl1 (D ! j')" using I(4) no I(2) notnone by force
      moreover have "\<not> wave1 < wl1 (D ! m)" if "m < j'" for m
      proof -
        have "m \<le> i'" using that ij by simp
        from inv(3)[OF this] I have "wl1 (D ! m) \<le> wl1 (D ! i')" by simp
        with I(3) show ?thesis by simp
      qed
      ultimately show ?thesis using kj by simp
    qed
    from c1 c2 c3 show ?thesis by blast
  qed
qed

subsection \<open>Decompression and the wavelength filter\<close>

lemma memcpy_apply:
  "memcpy dst d src n x = (if d \<le> x \<and> x < d + n then src ! (x - d) else dst x)"
  unfolding memcpy_def by (induction n arbitrary: x) auto

lemma copy76_prefix:
  assumes "fc < i" "n \<le> 76"
  shows "fold (\<lambda>j m. m(fc * 76 + j := m (i * 76 + j))) [0..<n] s x =
         (if fc * 76 \<le> x \<and> x < fc * 76 + n then s (i * 76 + (x - fc * 76)) else s x)"
  using assms(2)
proof (induction n arbitrary: x)
  case 0
  then show ?case by auto
next
  case (Suc n)
  have "n \<le> 76" using Suc.prems by simp
  note IH = Suc.IH[OF this]
  have "fc * 76 + 76 \<le> i * 76" using assms(1) by simp
  then have c: "\<not> (fc * 76 \<le> i * 76 + n \<and> i * 76 + n < fc * 76 + n)" by simp
  have a: "fold (\<lambda>j m. m(fc * 76 + j := m (i * 76 + j))) [0..<n] s (i * 76 + n) = s (i * 76 + n)"
    unfolding IH[of "i * 76 + n"] by (simp only: c if_False)
  have "fold (\<lambda>j m. m(fc * 76 + j := m (i * 76 + j))) [0..<Suc n] s x =
        (if x = fc * 76 + n then s (i * 76 + n)
         else fold (\<lambda>j m. m(fc * 76 + j := m (i * 76 + j))) [0..<n] s x)"
    by (simp add: a)
  also have "\<dots> = (if fc * 76 \<le> x \<and> x < fc * 76 + Suc n then s (i * 76 + (x - fc * 76)) else s x)"
    unfolding IH[of x] by auto
  finally show ?case .
qed

lemma copy76_apply:
  "fc < i \<Longrightarrow> copy76 s fc i x =
     (if fc * 76 \<le> x \<and> x < fc * 76 + 76 then s (i * 76 + (x - fc * 76)) else s x)"
  unfolding copy76_def by (rule copy76_prefix) simp_all

lemma in_range_idx_Suc:
  "in_range_idx wave1 wave2 b (Suc k) =
     in_range_idx wave1 wave2 b k @ (if wave1 \<le> wl b k \<and> wl b k \<le> wave2 then [k] else [])"
  by (simp add: in_range_idx_def)

lemma in_range_idx_le: "length (in_range_idx wave1 wave2 b k) \<le> k"
  unfolding in_range_idx_def using length_filter_le[of _ "[0..<k]"] by simp

lemma filter_step_inv:
  assumes "filter_inv wave1 wave2 b0 k st"
  shows "filter_inv wave1 wave2 b0 (Suc k) (filter_step wave1 wave2 k st)"
proof -
  obtain b fc where st: "st = (b, fc)" by (cases st)
  define ix where "ix = in_range_idx wave1 wave2 b0 k"
  from assms have fc: "fc = length ix"
    and lo: "\<And>p. p < fc \<Longrightarrow> fields_at b p = fields_at b0 (ix ! p)"
    and hi: "\<And>q. fc \<le> q \<Longrightarrow> fields_at b q = fields_at b0 q"
    and slo: "\<And>x. x < fc * 76 \<Longrightarrow> str b x = str b0 ((ix ! (x div 76)) * 76 + x mod 76)"
    and shi: "\<And>x. fc * 76 \<le> x \<Longrightarrow> str b x = str b0 x"
    by (simp_all add: filter_inv_def st ix_def Let_def)
  have fck: "fc \<le> k" using fc in_range_idx_le ix_def by simp
  have wlk: "wl b k = wl b0 k" using hi[OF fck] by (simp add: fields_at_def)
  show ?thesis
  proof (cases "wave1 \<le> wl b0 k \<and> wl b0 k \<le> wave2")
    case False
    then have "filter_step wave1 wave2 k st = st"
      using wlk by (auto simp: filter_step_def st)
    moreover have "in_range_idx wave1 wave2 b0 (Suc k) = ix"
      using False by (simp add: in_range_idx_Suc ix_def)
    ultimately show ?thesis using assms by (simp add: filter_inv_def ix_def)
  next
    case True
    have ix': "in_range_idx wave1 wave2 b0 (Suc k) = ix @ [k]"
      using True by (simp add: in_range_idx_Suc ix_def)
    show ?thesis
    proof (cases "fc = k")
      case eq: True
      have res: "filter_step wave1 wave2 k st = (b, Suc fc)"
        using True wlk eq by (simp add: filter_step_def st)
      have "fields_at b p = fields_at b0 ((ix @ [k]) ! p)" if "p < Suc fc" for p
        using that lo[of p] hi[of fc] eq fc by (cases "p = fc") (simp_all add: nth_append)
      moreover have "str b x = str b0 (((ix @ [k]) ! (x div 76)) * 76 + x mod 76)"
        if "x < Suc fc * 76" for x
      proof (cases "x < fc * 76")
        case True
        then have "x div 76 < length ix" using fc by (simp add: less_mult_imp_div_less)
        then show ?thesis using slo[OF True] by (simp add: nth_append)
      next
        case False
        then have "x div 76 = fc" using that by (simp add: div_nat_eqI mult.commute)
        moreover from this have "fc * 76 + x mod 76 = x" using div_mult_mod_eq[of x 76] by simp
        ultimately show ?thesis using shi[of x] False eq fc by (simp add: nth_append)
      qed
      ultimately show ?thesis using hi shi fc
        by (simp add: filter_inv_def res ix' Let_def)
    next
      case ne: False
      then have lt: "fc < k" using fck by simp
      define b' where "b' = snd (undefined, fst (filter_step wave1 wave2 k st))"
      have res: "filter_step wave1 wave2 k st = (b', Suc fc)"
        using True wlk ne by (simp add: filter_step_def st b'_def)
      have fld: "fields_at b' p = (if p = fc then fields_at b k else fields_at b p)" for p
        using True wlk ne by (simp add: filter_step_def st b'_def fields_at_def)
      have sb: "str b' = copy76 (str b) fc k"
        using True wlk ne by (simp add: filter_step_def st b'_def)
      have "fields_at b' p = fields_at b0 ((ix @ [k]) ! p)" if "p < Suc fc" for p
        using that lo[of p] hi[of k] fck fc by (cases "p = fc") (simp_all add: nth_append fld)
      moreover have "fields_at b' q = fields_at b0 q" if "Suc fc \<le> q" for q
        using that hi[of q] by (simp add: fld)
      moreover have "str b' x = str b0 (((ix @ [k]) ! (x div 76)) * 76 + x mod 76)"
        if "x < Suc fc * 76" for x
      proof (cases "x < fc * 76")
        case True
        then have "x div 76 < length ix" using fc by (simp add: less_mult_imp_div_less)
        then show ?thesis using slo[OF True] True by (simp add: nth_append sb copy76_apply[OF lt])
      next
        case False
        then have d: "x div 76 = fc" using that by (simp add: div_nat_eqI mult.commute)
        have m: "x - fc * 76 = x mod 76" using d by (metis minus_mult_div_eq_mod mult.commute)
        have "fc * 76 \<le> k * 76 + x mod 76" using lt by simp
        from shi[OF this] have "str b (k * 76 + x mod 76) = str b0 (k * 76 + x mod 76)" .
        moreover have "str b' x = str b (k * 76 + x mod 76)"
          using False that by (simp add: sb copy76_apply[OF lt] m)
        moreover have "(ix @ [k]) ! (x div 76) = k" using d fc by (simp add: nth_append)
        ultimately show ?thesis by simp
      qed
      moreover have "str b' x = str b0 x" if "Suc fc * 76 \<le> x" for x
        using that shi[of x] by (simp add: sb copy76_apply[OF lt])
      ultimately show ?thesis using fc
        by (simp add: filter_inv_def res ix' Let_def)
    qed
  qed
qed

lemma filter_fold_inv:
  "filter_inv wave1 wave2 b0 k (fold (filter_step wave1 wave2) [0..<k] (b0, 0))"
proof (induction k)
  case 0
  show ?case by (simp add: filter_inv_def in_range_idx_def)
next
  case (Suc k)
  from filter_step_inv[OF Suc] show ?case by simp
qed

lemma filter_lines_inv:
  "filter_inv wave1 wave2 b0 nlines (filter_lines wave1 wave2 nlines b0)"
  unfolding filter_lines_def by (rule filter_fold_inv)

lemma store_lines_spec:
  assumes "store_lines ls n b = (b', n')"
  shows "n' = n + length ls \<and>
         (\<forall>p<length ls. fields_at b' (n + p) = line_fields (ls ! p) \<and>
                         (\<forall>t<210. str b' ((n + p) * 210 + t) = ln_str (ls ! p) ! t)) \<and>
         (\<forall>q<n. fields_at b' q = fields_at b q) \<and>
         (\<forall>x<n * 210. str b' x = str b x)"
  using assms
proof (induction ls arbitrary: n b)
  case Nil
  then show ?case by simp
next
  case (Cons l ls)
  from Cons.prems have st: "store_lines ls (Suc n) (ADDLINE l n b) = (b', n')" by simp
  note IH = Cons.IH[OF st]
  have A: "fields_at (ADDLINE l n b) q = (if q = n then line_fields l else fields_at b q)" for q
    by (simp add: ADDLINE_def fields_at_def line_fields_def)
  have S: "str (ADDLINE l n b) x =
           (if n * 210 \<le> x \<and> x < n * 210 + 210 then ln_str l ! (x - n * 210) else str b x)" for x
    by (simp add: ADDLINE_def memcpy_apply)
  have c1: "n' = n + length (l # ls)" using IH by simp
  have c2: "fields_at b' (n + p) = line_fields ((l # ls) ! p) \<and>
            (\<forall>t<210. str b' ((n + p) * 210 + t) = ln_str ((l # ls) ! p) ! t)"
    if "p < length (l # ls)" for p
  proof (cases p)
    case 0
    have "fields_at b' n = line_fields l" using IH A by simp
    moreover have "str b' (n * 210 + t) = ln_str l ! t" if "t < 210" for t
    proof -
      have "n * 210 + t < Suc n * 210" using that by simp
      with IH have "str b' (n * 210 + t) = str (ADDLINE l n b) (n * 210 + t)" by blast
      then show ?thesis using that by (simp add: S)
    qed
    ultimately show ?thesis using 0 by simp
  next
    case (Suc p')
    then have "p' < length ls" using that by simp
    with IH show ?thesis using Suc by simp
  qed
  have c3: "fields_at b' q = fields_at b q" if "q < n" for q
    using IH that A by simp
  have c4: "str b' x = str b x" if "x < n * 210" for x
  proof -
    have "x < Suc n * 210" using that by simp
    with IH have "str b' x = str (ADDLINE l n b) x" by blast
    then show ?thesis using that by (simp add: S)
  qed
  from c1 c2 c3 c4 show ?case by blast
qed

lemma uncompress_spec:
  assumes "uncompress lzw record b = (b1, nlines)"
  shows "nlines = length (lzw record)"
    and "p < nlines \<Longrightarrow> fields_at b1 p = line_fields (lzw record ! p)"
    and "p < nlines \<Longrightarrow> t < 210 \<Longrightarrow> str b1 (p * 210 + t) = ln_str (lzw record ! p) ! t"
  using store_lines_spec[OF assms[unfolded uncompress_def]] by simp_all

lemma filter_lines_spec:
  assumes "filter_lines wave1 wave2 nlines b1 = (b2, m)"
  shows "m = length (in_range_idx wave1 wave2 b1 nlines)"
    and "p < m \<Longrightarrow> fields_at b2 p = fields_at b1 (in_range_idx wave1 wave2 b1 nlines ! p)"
    and "x < m * 76 \<Longrightarrow>
           str b2 x = str b1 ((in_range_idx wave1 wave2 b1 nlines ! (x div 76)) * 76 + x mod 76)"
    and "m * 76 \<le> x \<Longrightarrow> str b2 x = str b1 x"
  using filter_lines_inv[of wave1 wave2 b1 nlines] assms
  by (simp_all add: filter_inv_def Let_def)

lemma in_range_idx_nth:
  assumes "p < length (in_range_idx wave1 wave2 b n)"
  shows "in_range_idx wave1 wave2 b n ! p < n"
    and "wave1 \<le> wl b (in_range_idx wave1 wave2 b n ! p)"
    and "wl b (in_range_idx wave1 wave2 b n ! p) \<le> wave2"
proof -
  have "in_range_idx wave1 wave2 b n ! p \<in> set (in_range_idx wave1 wave2 b n)"
    using assms by simp
  then show "in_range_idx wave1 wave2 b n ! p < n"
    and "wave1 \<le> wl b (in_range_idx wave1 wave2 b n ! p)"
    and "wl b (in_range_idx wave1 wave2 b n ! p) \<le> wave2"
    by (simp_all add: in_range_idx_def)
qed

text \<open>What a call of \<^verbatim>\<open>ukread_\<close> on a valid handle with a non-empty directory does.\<close>

lemma ukread_cases:
  assumes "valid_file fi f = Some rd" "records rd \<noteq> []"
  obtains
    (empty) "locate (records rd) wave1 wave2 = None"
      "ukread lzw fi f wave1 wave2 b = Some (-2, fi, b)"
  | (seek) k where "locate (records rd) wave1 wave2 = Some k"
      "seek_fails rd (offset (records rd ! k))"
      "ukread lzw fi f wave1 wave2 b = Some (-3, fi(f := Some (rd\<lparr>current_record := k\<rparr>)), b)"
  | (short) k rd' where "locate (records rd) wave1 wave2 = Some k"
      "current_record rd' = k"
      "\<not> (0 < length_r (records rd ! k) \<and>
          offset (records rd ! k) + nat (length_r (records rd ! k)) \<le> length (data rd))"
      "ukread lzw fi f wave1 wave2 b = Some (-4, fi(f := Some rd'), b)"
  | (ok) k rd' rcd b1 nlines b2 m where "locate (records rd) wave1 wave2 = Some k"
      "current_record rd' = Suc k"
      "rcd = take (nat (length_r (records rd ! k))) (drop (offset (records rd ! k)) (data rd))"
      "uncompress lzw rcd b = (b1, nlines)"
      "filter_lines wave1 wave2 nlines b1 = (b2, m)"
      "ukread lzw fi f wave1 wave2 b = Some (int m, fi(f := Some rd'), b2)"
      "rd' = rd\<lparr>current_record := Suc k,
                 pos := offset (records rd ! k) + nat (length_r (records rd ! k))\<rparr>"
proof (cases "locate (records rd) wave1 wave2")
  case None
  with assms have "ukread lzw fi f wave1 wave2 b = Some (-2, fi, b)"
    by (simp add: ukread_def)
  with None show ?thesis by (rule empty)
next
  case (Some k)
  define rd1 where "rd1 = rd\<lparr>current_record := k\<rparr>"
  define off where "off = offset (records rd ! k)"
  show ?thesis
  proof (cases "seek_fails rd off")
    case True
    with assms Some have "ukread lzw fi f wave1 wave2 b = Some (-3, fi(f := Some rd1), b)"
      by (simp add: ukread_def Let_def rd1_def off_def)
    with Some True show ?thesis unfolding rd1_def off_def by (rule seek)
  next
    case False
    define rd2 where "rd2 = rd1\<lparr>pos := off\<rparr>"
    define len where "len = length_r (records rd ! k)"
    obtain res rd3 where fr: "fread1 rd2 len = (res, rd3)" by force
    have cr3: "current_record rd3 = k"
      using fr by (auto simp: fread1_def rd2_def rd1_def split: if_splits)
    show ?thesis
    proof (cases res)
      case None
      with assms Some False fr
      have "ukread lzw fi f wave1 wave2 b = Some (-4, fi(f := Some rd3), b)"
        by (simp add: ukread_def Let_def rd1_def rd2_def off_def len_def)
      moreover have "\<not> (0 < len \<and> off + nat len \<le> length (data rd))"
        using fr None by (auto simp: fread1_def rd2_def rd1_def split: if_splits)
      ultimately show ?thesis using Some cr3 short unfolding len_def off_def by blast
    next
      case (Some rcd)
      obtain b1 nlines where u: "uncompress lzw rcd b = (b1, nlines)" by force
      obtain b2 m where fl: "filter_lines wave1 wave2 nlines b1 = (b2, m)" by force
      define rd4 where "rd4 = rd3\<lparr>current_record := current_record rd3 + 1\<rparr>"
      have "ukread lzw fi f wave1 wave2 b = Some (int m, fi(f := Some rd4), b2)"
        using assms \<open>locate (records rd) wave1 wave2 = Some k\<close> False fr Some u fl
        by (simp add: ukread_def Let_def rd1_def rd2_def off_def len_def rd4_def)
      moreover have "current_record rd4 = Suc k" using cr3 by (simp add: rd4_def)
      moreover have "rcd = take (nat len) (drop off (data rd))"
        using fr Some by (auto simp: fread1_def rd2_def rd1_def split: if_splits)
      moreover have "rd4 = rd\<lparr>current_record := Suc k, pos := off + nat len\<rparr>"
        using fr Some by (auto simp: fread1_def rd4_def rd2_def rd1_def split: if_splits)
      ultimately show ?thesis
        using \<open>locate (records rd) wave1 wave2 = Some k\<close> u fl ok unfolding len_def off_def
        by blast
    qed
  qed
qed

subsection \<open>The claims about the decoder\<close>

text \<open>
  Claim C2.  For an open reader whose directory \<open>D\<close> is not empty and satisfies the
  directory invariant, \<^verbatim>\<open>ukread_\<close> returns -2 exactly when \<open>wave1\<close> is above the end of
  the last record or \<open>wave2\<close> below the start of the first.  Otherwise it makes a record
  \<open>k\<close> current: one whose closed range contains \<open>wave1\<close> when some record's range does,
  and else the first record whose range starts above \<open>wave1\<close>.  (The current record
  is \<open>k\<close> when the read then fails, and its successor after a read.)
\<close>

theorem ukread_bisection:
  assumes "valid_file fi f = Some rd" and "records rd = D" and "D \<noteq> []" and "directory_inv D"
  shows "\<exists>ret fi' b'. ukread lzw fi f wave1 wave2 b = Some (ret, fi', b') \<and>
           (ret = -2 \<longleftrightarrow> wave1 > wl2 (last D) \<or> wave2 < wl1 (hd D)) \<and>
           (ret \<noteq> -2 \<longrightarrow>
              (\<exists>k rd'. locate D wave1 wave2 = Some k \<and> k < length D \<and>
                 fi' f = Some rd' \<and> current_record rd' = (if ret < 0 then k else Suc k) \<and>
                 ((\<exists>m<length D. wl1 (D ! m) \<le> wave1 \<and> wave1 \<le> wl2 (D ! m))
                    \<longrightarrow> wl1 (D ! k) \<le> wave1 \<and> wave1 \<le> wl2 (D ! k)) \<and>
                 (\<not> (\<exists>m<length D. wl1 (D ! m) \<le> wave1 \<and> wave1 \<le> wl2 (D ! m))
                    \<longrightarrow> wave1 < wl1 (D ! k) \<and> (\<forall>m<k. \<not> wave1 < wl1 (D ! m)))))"
proof -
  have ne: "records rd \<noteq> []" using assms by simp
  note none = locate_None[OF assms(3), of wave1 wave2]
  from assms(1) ne show ?thesis
  proof (cases rule: ukread_cases[where ?wave1.0 = wave1 and ?wave2.0 = wave2 and lzw = lzw and b = b])
    case empty
    then show ?thesis using none assms(2) by simp
  next
    case (seek k)
    then have loc: "locate D wave1 wave2 = Some k" using assms(2) by simp
    from locate_Some[OF assms(3,4) loc] none loc seek(3) show ?thesis by simp
  next
    case (short k rd')
    then have loc: "locate D wave1 wave2 = Some k" using assms(2) by simp
    from locate_Some[OF assms(3,4) loc] none loc short(2,4) show ?thesis by simp
  next
    case (ok k rd' rcd b1 nlines b2 m)
    then have loc: "locate D wave1 wave2 = Some k" using assms(2) by simp
    from locate_Some[OF assms(3,4) loc] none loc ok(2,6) show ?thesis by simp
  qed
qed

lemma ex_valid: "valid_file ex_fi 1 = Some ex_reader"
  by (simp add: valid_file_def ex_fi_def MAX_OPEN_FILES_def)

lemma ex_directory_inv: "directory_inv ex_dir"
  by (simp add: directory_inv_def ex_dir_def)

theorem ukread_bisection_witness:
  "valid_file ex_fi 1 = Some ex_reader \<and> records ex_reader = ex_dir \<and> ex_dir \<noteq> [] \<and>
   directory_inv ex_dir \<and>
   (\<exists>ret fi' b'. ukread ex_lzw ex_fi 1 4900 5100 fresh_buffers = Some (ret, fi', b') \<and>
      ret \<noteq> -2 \<and>
      (\<exists>rd'. locate ex_dir 4900 5100 = Some 0 \<and> fi' 1 = Some rd' \<and>
         current_record rd' = (if ret < 0 then 0 else Suc 0)))"
proof -
  have r: "records ex_reader = ex_dir" by (simp add: ex_reader_def)
  have ne: "ex_dir \<noteq> []" by (simp add: ex_dir_def)
  have hd: "wl1 (hd ex_dir) = 4000" "wl2 (last ex_dir) = 6000" "length ex_dir = 2"
    "wl1 (ex_dir ! 0) = 4000" "wl2 (ex_dir ! 0) = 5000"
    by (simp_all add: ex_dir_def)
  obtain ret fi' b' where u: "ukread ex_lzw ex_fi 1 4900 5100 fresh_buffers = Some (ret, fi', b')"
    and a: "ret = -2 \<longleftrightarrow> (4900::real) > wl2 (last ex_dir) \<or> (5100::real) < wl1 (hd ex_dir)"
    and c: "ret \<noteq> -2 \<longrightarrow>
      (\<exists>k rd'. locate ex_dir 4900 5100 = Some k \<and> k < length ex_dir \<and>
         fi' 1 = Some rd' \<and> current_record rd' = (if ret < 0 then k else Suc k) \<and>
         ((\<exists>m<length ex_dir. wl1 (ex_dir ! m) \<le> 4900 \<and> 4900 \<le> wl2 (ex_dir ! m))
            \<longrightarrow> wl1 (ex_dir ! k) \<le> 4900 \<and> 4900 \<le> wl2 (ex_dir ! k)) \<and>
         (\<not> (\<exists>m<length ex_dir. wl1 (ex_dir ! m) \<le> 4900 \<and> 4900 \<le> wl2 (ex_dir ! m))
            \<longrightarrow> 4900 < wl1 (ex_dir ! k) \<and> (\<forall>m<k. \<not> 4900 < wl1 (ex_dir ! m))))"
    using ukread_bisection[OF ex_valid r ne ex_directory_inv, of ex_lzw 4900 5100 fresh_buffers]
    by blast
  have n2: "ret \<noteq> -2" using a hd by simp
  with c obtain k rd' where k: "locate ex_dir 4900 5100 = Some k" "k < length ex_dir"
    "fi' 1 = Some rd'" "current_record rd' = (if ret < 0 then k else Suc k)"
    "(\<exists>m<length ex_dir. wl1 (ex_dir ! m) \<le> 4900 \<and> 4900 \<le> wl2 (ex_dir ! m))
            \<longrightarrow> wl1 (ex_dir ! k) \<le> 4900 \<and> 4900 \<le> wl2 (ex_dir ! k)"
    by blast
  have "\<exists>m<length ex_dir. wl1 (ex_dir ! m) \<le> 4900 \<and> 4900 \<le> wl2 (ex_dir ! m)"
    using hd by (intro exI[of _ 0]) simp
  with k(5) have "wl1 (ex_dir ! k) \<le> 4900" by blast
  moreover have "wl1 (ex_dir ! 1) = 5000" by (simp add: ex_dir_def)
  ultimately have "k = 0" using k(2) hd(3) by (cases "k = 0") (auto simp: less_Suc_eq numeral_2_eq_2)
  with k u n2 ex_valid r ne ex_directory_inv show ?thesis by auto
qed

text \<open>
  Claim C3.  When \<^verbatim>\<open>ukread_\<close> returns a non-negative count, each of that many
  transitions at the front of the output buffers has its wavelength in
  \<open>[wave1, wave2]\<close>.
\<close>

theorem ukread_in_range:
  assumes "ukread lzw fi f wave1 wave2 b = Some (ret, fi', b')" and "0 \<le> ret"
  shows "\<forall>p<nat ret. wave1 \<le> wl b' p \<and> wl b' p \<le> wave2"
proof (cases "valid_file fi f")
  case None
  with assms show ?thesis by (simp add: ukread_def)
next
  case (Some rd)
  have ne: "records rd \<noteq> []" using assms(1) Some by (auto simp: ukread_def)
  from Some ne show ?thesis
  proof (cases rule: ukread_cases[where ?wave1.0 = wave1 and ?wave2.0 = wave2 and lzw = lzw and b = b])
    case (ok k rd' rcd b1 nlines b2 m)
    then have eq: "b' = b2" "nat ret = m" using assms(1) by auto
    show ?thesis
    proof (intro allI impI)
      fix p assume "p < nat ret"
      then have p: "p < length (in_range_idx wave1 wave2 b1 nlines)"
        using eq filter_lines_spec(1)[OF ok(5)] by simp
      have "wl b2 p = wl b1 (in_range_idx wave1 wave2 b1 nlines ! p)"
        using filter_lines_spec(2)[OF ok(5), of p] p filter_lines_spec(1)[OF ok(5)]
        by (simp add: fields_at_def)
      with in_range_idx_nth(2,3)[OF p] eq show "wave1 \<le> wl b' p \<and> wl b' p \<le> wave2" by simp
    qed
  qed (use assms in auto)
qed

text \<open>The example query \<open>[4900, 5100]\<close>, for any decoder that yields two lines at 4800 and 4950.\<close>

lemma ex_ukread:
  assumes "lzw [1, 1, 1] = [l0, l1]" "ln_wl l0 = 4800" "ln_wl l1 = 4950"
  shows "\<exists>b1 b2. ukread lzw ex_fi 1 4900 5100 fresh_buffers =
             Some (1, ex_fi(1 := Some (ex_reader\<lparr>current_record := 1, pos := 3\<rparr>)), b2) \<and>
           uncompress lzw [1, 1, 1] fresh_buffers = (b1, 2) \<and>
           filter_lines 4900 5100 2 b1 = (b2, 1) \<and>
           in_range_idx 4900 5100 b1 2 = [1]"
proof -
  have ne: "records ex_reader \<noteq> []" by (simp add: ex_reader_def ex_dir_def)
  have loc: "locate (records ex_reader) 4900 5100 = Some 0"
    by (simp add: ex_reader_def locate_def ex_dir_def bisect.simps)
  have r0: "offset (records ex_reader ! 0) = 0" "length_r (records ex_reader ! 0) = 3"
    "data ex_reader = [1, 1, 1, 2, 2]" "\<not> seek_fails ex_reader 0"
    by (simp_all add: ex_reader_def ex_dir_def)
  from ex_valid ne show ?thesis
  proof (cases rule: ukread_cases[where ?wave1.0 = 4900 and ?wave2.0 = 5100 and lzw = lzw
        and b = fresh_buffers])
    case empty
    with loc show ?thesis by simp
  next
    case (seek k)
    with loc r0 show ?thesis by simp
  next
    case (short k rd')
    with loc r0 show ?thesis by simp
  next
    case (ok k rd' rcd b1 nlines b2 m)
    have k: "k = 0" using ok(1) loc by simp
    have rcd: "rcd = [1, 1, 1]" using ok(3) r0 k by simp
    have n: "nlines = 2" using uncompress_spec(1)[OF ok(4)] rcd assms(1) by simp
    have w0: "wl b1 0 = 4800" and w1: "wl b1 (Suc 0) = 4950"
      using uncompress_spec(2)[OF ok(4), of 0] uncompress_spec(2)[OF ok(4), of 1] n rcd assms
      by (simp_all add: fields_at_def line_fields_def)
    have ix: "in_range_idx 4900 5100 b1 2 = [1]"
      by (simp add: in_range_idx_def upt_rec[of 0] upt_rec[of "Suc 0"] numeral_2_eq_2 w0 w1)
    have m: "m = 1" using filter_lines_spec(1)[OF ok(5)] ix n by simp
    have rd': "rd' = ex_reader\<lparr>current_record := 1, pos := 3\<rparr>"
      using ok(7) k r0 by simp
    show ?thesis using ok(4,5,6) rcd n m ix rd' by simp
  qed
qed

lemma ex_lzw_lines:
  "ex_lzw [1, 1, 1] = [ex_line 4800 65, ex_line 4950 66]"
  "ex_lzw [2, 2] = [ex_line 5050 67, ex_line 5500 68]"
  "ex_lzw_same [1, 1, 1] = [ex_line 4800 32, ex_line 4950 32]"
  "ln_wl (ex_line w c) = w" "ln_str (ex_line w c) = replicate 210 c"
  by (simp_all add: ex_lzw_def ex_lzw_same_def ex_line_def)

theorem ukread_in_range_witness:
  "\<exists>fi' b'. ukread ex_lzw ex_fi 1 4900 5100 fresh_buffers = Some (1, fi', b') \<and>
     4900 \<le> wl b' 0 \<and> wl b' 0 \<le> 5100"
proof -
  from ex_ukread[of ex_lzw, OF ex_lzw_lines(1) ex_lzw_lines(4) ex_lzw_lines(4)] obtain fi' b'
    where u: "ukread ex_lzw ex_fi 1 4900 5100 fresh_buffers = Some (1, fi', b')"
    by blast
  from ukread_in_range[OF u] have "4900 \<le> wl b' 0 \<and> wl b' 0 \<le> 5100" by simp
  with u show ?thesis by blast
qed

text \<open>
  Claim C9, as amended.  \<^verbatim>\<open>uncompress\<close> stores the text block of decoded line \<open>i\<close> at
  bytes \<open>[210 i, 210 i + 210)\<close> of \<open>str\<close>.  After a successful \<^verbatim>\<open>ukread_\<close> returning
  \<open>m\<close> lines, where \<open>ix\<close> lists the indices of the decoded lines in range: each of the
  twelve numeric arrays holds at position \<open>p < m\<close> the value decoded for line
  \<open>ix ! p\<close>; the string buffer has been compacted with a 76-byte stride, byte
  \<open>x < 76 m\<close> being the decoded byte \<open>76 (ix ! (x div 76)) + x mod 76\<close> and every
  byte from \<open>76 m\<close> on being unchanged.  So the 210 bytes at a returned position are
  not copied from the block decoded for that transition, and equal it only when
  those bytes happen to coincide.
\<close>

theorem ukread_string_stride:
  assumes "valid_file fi f = Some rd"
    and "ukread lzw fi f wave1 wave2 b = Some (ret, fi', b2)" and "0 \<le> ret"
  shows "\<exists>k rcd b1 nlines ix.
           locate (records rd) wave1 wave2 = Some k \<and>
           rcd = take (nat (length_r (records rd ! k))) (drop (offset (records rd ! k)) (data rd)) \<and>
           uncompress lzw rcd b = (b1, nlines) \<and> nlines = length (lzw rcd) \<and>
           (\<forall>i<nlines. \<forall>t<210. str b1 (i * 210 + t) = ln_str (lzw rcd ! i) ! t) \<and>
           ix = in_range_idx wave1 wave2 b1 nlines \<and> nat ret = length ix \<and>
           (\<forall>p<nat ret. ix ! p < nlines \<and> fields_at b2 p = line_fields (lzw rcd ! (ix ! p))) \<and>
           (\<forall>x<nat ret * 76. str b2 x = str b1 ((ix ! (x div 76)) * 76 + x mod 76)) \<and>
           (\<forall>x\<ge>nat ret * 76. str b2 x = str b1 x)"
proof -
  have ne: "records rd \<noteq> []" using assms by (auto simp: ukread_def)
  from assms(1) ne show ?thesis
  proof (cases rule: ukread_cases[where ?wave1.0 = wave1 and ?wave2.0 = wave2 and lzw = lzw
        and b = b])
    case (ok k rd' rcd b1 nlines b2' m)
    then have eq: "b2' = b2" "nat ret = m" using assms(2) by auto
    note u = uncompress_spec[OF ok(4)]
    note fl = filter_lines_spec[OF ok(5)[unfolded eq(1)]]
    define ix where "ix = in_range_idx wave1 wave2 b1 nlines"
    have "ix ! p < nlines \<and> fields_at b2 p = line_fields (lzw rcd ! (ix ! p))" if "p < m" for p
    proof -
      have p: "p < length ix" using that fl(1) ix_def by simp
      then have "ix ! p < nlines" using in_range_idx_nth(1) ix_def by simp
      with u(2) fl(2)[OF that] show ?thesis by (simp add: ix_def)
    qed
    with ok(1,3,4) u(1) u(3) fl(1,3,4) eq(2) ix_def show ?thesis
      by (intro exI[of _ k] exI[of _ rcd] exI[of _ b1] exI[of _ nlines] exI[of _ ix]) simp
  qed (use assms in auto)
qed

text \<open>
  On the example file with distinct text blocks (bytes 65 and 66), the query
  \<open>[4900, 5100]\<close> returns the transition decoded at index 1, and the 210-byte block at
  its returned position 0 is still the block of the transition at index 0.
\<close>

lemma block_at_eq_replicate:
  "(\<And>t. t < n \<Longrightarrow> s (p * n + t) = c) \<Longrightarrow> block_at s n p = replicate n c"
  by (simp add: block_at_def list_eq_iff_nth_eq)

theorem ukread_string_stride_witness:
  "\<exists>fi' b2. ukread ex_lzw ex_fi 1 4900 5100 fresh_buffers = Some (1, fi', b2) \<and>
     fields_at b2 0 = line_fields (ex_lzw [1, 1, 1] ! 1) \<and>
     block_at (str b2) 210 0 = ln_str (ex_lzw [1, 1, 1] ! 0) \<and>
     block_at (str b2) 210 0 \<noteq> ln_str (ex_lzw [1, 1, 1] ! 1)"
proof -
  from ex_ukread[of ex_lzw, OF ex_lzw_lines(1) ex_lzw_lines(4) ex_lzw_lines(4)]
  obtain fi' b1' b2 where u: "ukread ex_lzw ex_fi 1 4900 5100 fresh_buffers = Some (1, fi', b2)"
    and u1: "uncompress ex_lzw [1, 1, 1] fresh_buffers = (b1', 2)"
    and ix1: "in_range_idx 4900 5100 b1' 2 = [1]"
    by blast
  have loc: "locate (records ex_reader) 4900 5100 = Some 0"
    by (simp add: ex_reader_def locate_def ex_dir_def bisect.simps)
  have r0: "take (nat (length_r (records ex_reader ! 0)))
              (drop (offset (records ex_reader ! 0)) (data ex_reader)) = [1, 1, 1]"
    by (simp add: ex_reader_def ex_dir_def)
  have z: "(0::int) \<le> 1" by simp
  from ukread_string_stride[OF ex_valid u z]
  obtain k rcd b1 nlines ix where
    T: "locate (records ex_reader) 4900 5100 = Some k"
      "rcd = take (nat (length_r (records ex_reader ! k)))
               (drop (offset (records ex_reader ! k)) (data ex_reader))"
      "uncompress ex_lzw rcd fresh_buffers = (b1, nlines)"
      "\<forall>i<nlines. \<forall>t<210. str b1 (i * 210 + t) = ln_str (ex_lzw rcd ! i) ! t"
      "ix = in_range_idx 4900 5100 b1 nlines"
      "\<forall>p<nat 1. ix ! p < nlines \<and> fields_at b2 p = line_fields (ex_lzw rcd ! (ix ! p))"
      "\<forall>x<nat 1 * 76. str b2 x = str b1 ((ix ! (x div 76)) * 76 + x mod 76)"
      "\<forall>x\<ge>nat 1 * 76. str b2 x = str b1 x"
    by blast
  have k: "k = 0" using T(1) loc by simp
  have rcd: "rcd = [1, 1, 1]" using T(2) r0 k by simp
  have b1: "b1 = b1'" "nlines = 2" using T(3) u1 rcd by simp_all
  have ix: "ix = [1]" using T(5) ix1 b1 by simp
  have S: "\<forall>i<2. \<forall>t<210. str b1' (i * 210 + t) = ln_str (ex_lzw [1, 1, 1] ! i) ! t"
    using T(4) b1 rcd by simp
  have F: "fields_at b2 0 = line_fields (ex_lzw [1, 1, 1] ! 1)"
    using T(6) ix rcd by simp
  have lo: "str b2 x = str b1' (76 + x)" if "x < 76" for x
    using T(7)[rule_format, of x] that ix b1 by simp
  have hi: "str b2 x = str b1' x" if "76 \<le> x" for x
    using T(8)[rule_format, of x] that b1 by simp
  have c65: "str b1' x = 65" if "x < 210" for x
    using S[rule_format, of 0 x] that by (simp add: ex_lzw_lines)
  have "str b2 (0 * 210 + t) = 65" if "t < 210" for t
  proof (cases "t < 76")
    case True
    with lo have "str b2 t = str b1' (76 + t)" by simp
    with True c65[of "76 + t"] show ?thesis by simp
  next
    case False
    with hi have "str b2 t = str b1' t" by simp
    with that c65[of t] show ?thesis by simp
  qed
  then have "block_at (str b2) 210 0 = replicate 210 65" by (rule block_at_eq_replicate)
  moreover have "replicate 210 (65::byte) \<noteq> replicate 210 66"
    by simp
  ultimately show ?thesis using u F by (auto simp: ex_lzw_lines)
qed

text \<open>
  The claim as stated fails where the bytes coincide: with one text block in every
  decoded transition, a transition below \<open>wave1\<close> precedes the one in range, and the
  block at the returned position is the block decoded for the returned transition.
\<close>

theorem ukread_string_block_counterexample:
  "\<exists>fi' b2. ukread ex_lzw_same ex_fi 1 4900 5100 fresh_buffers = Some (1, fi', b2) \<and>
     ln_wl (ex_lzw_same [1, 1, 1] ! 0) < 4900 \<and>
     4900 \<le> ln_wl (ex_lzw_same [1, 1, 1] ! 1) \<and> ln_wl (ex_lzw_same [1, 1, 1] ! 1) \<le> 5100 \<and>
     fields_at b2 0 = line_fields (ex_lzw_same [1, 1, 1] ! 1) \<and>
     block_at (str b2) 210 0 = ln_str (ex_lzw_same [1, 1, 1] ! 1)"
proof -
  from ex_ukread[of ex_lzw_same, OF ex_lzw_lines(3) ex_lzw_lines(4) ex_lzw_lines(4)]
  obtain fi' b1 b2 where u: "ukread ex_lzw_same ex_fi 1 4900 5100 fresh_buffers = Some (1, fi', b2)"
    and u1: "uncompress ex_lzw_same [1, 1, 1] fresh_buffers = (b1, 2)"
    and fl: "filter_lines 4900 5100 2 b1 = (b2, 1)"
    and ix1: "in_range_idx 4900 5100 b1 2 = [1]"
    by blast
  note us = uncompress_spec[OF u1]
  note fs = filter_lines_spec[OF fl]
  have F: "fields_at b2 0 = line_fields (ex_lzw_same [1, 1, 1] ! 1)"
    using fs(2)[of 0] us(2)[of 1] ix1 by simp
  have b1: "str b1 x = 32" if "x < 420" for x
  proof (cases "x < 210")
    case True
    with us(3)[of 0 x] show ?thesis by (simp add: ex_lzw_lines)
  next
    case False
    with us(3)[of 1 "x - 210"] that show ?thesis by (simp add: ex_lzw_lines)
  qed
  have "str b2 (0 * 210 + t) = 32" if "t < 210" for t
  proof (cases "t < 76")
    case True
    with fs(3)[of t] ix1 have "str b2 t = str b1 (76 + t)" by simp
    with True b1[of "76 + t"] show ?thesis by simp
  next
    case False
    with fs(4)[of t] have "str b2 t = str b1 t" by simp
    with that b1[of t] show ?thesis by simp
  qed
  then have "block_at (str b2) 210 0 = replicate 210 32" by (rule block_at_eq_replicate)
  with u F show ?thesis by (auto simp: ex_lzw_lines)
qed

subsection \<open>\<^verbatim>\<open>uknext_\<close> and its caller\<close>

lemma uknext_ok:
  assumes "valid_file fi f = Some rd" "uknext lzw fi f b = (ret, fi', b')" "0 \<le> ret"
  defines "rcd \<equiv> take (nat (length_r (records rd ! current_record rd))) (drop (pos rd) (data rd))"
  shows "uncompress lzw rcd b = (b', nat ret)"
    and "fi' = fi(f := Some (rd\<lparr>pos := pos rd + nat (length_r (records rd ! current_record rd)),
                                current_record := current_record rd + 1\<rparr>))"
  using assms(1-3) unfolding rcd_def
  by (auto simp: uknext_def fread1_def Let_def split: if_splits prod.splits option.splits)

lemma ln_wl_line_at: "ln_wl (line_at b i) = wl b i"
  by (simp add: line_at_def)

lemma copy_lines_Suc:
  "copy_lines wl_min wl_max max_lines b (Suc n) out =
     (let acc = copy_lines wl_min wl_max max_lines b n out
      in if int (length acc) < max_lines \<and> wl b n \<ge> wl_min \<and> wl b n \<le> wl_max
         then acc @ [line_at b n] else acc)"
  by (simp add: copy_lines_def Let_def)

lemma copy_lines_in_range:
  assumes "\<forall>l\<in>set out. wl_min \<le> ln_wl l \<and> ln_wl l \<le> wl_max"
  shows "\<forall>l\<in>set (copy_lines wl_min wl_max max_lines b n out). wl_min \<le> ln_wl l \<and> ln_wl l \<le> wl_max"
proof (induction n)
  case 0
  show ?case using assms by (simp add: copy_lines_def)
next
  case (Suc n)
  then show ?case by (simp add: copy_lines_Suc Let_def ln_wl_line_at)
qed

lemma query_loop_in_range:
  assumes "query_loop lzw f wl_min wl_max max_lines nlines fi b out = (res, fi2)"
    and "\<forall>l\<in>set out. wl_min \<le> ln_wl l \<and> ln_wl l \<le> wl_max"
  shows "\<forall>l\<in>set res. wl_min \<le> ln_wl l \<and> ln_wl l \<le> wl_max"
  using assms
proof (induction lzw f wl_min wl_max max_lines nlines fi b out rule: query_loop.induct)
  case (1 lzw f wl_min wl_max max_lines nlines fi b out)
  show ?case
  proof (cases "nlines > 0 \<and> int (length out) < max_lines")
    case False
    with "1.prems" show ?thesis by (simp add: query_loop.simps)
  next
    case True
    define out' where "out' = copy_lines wl_min wl_max max_lines b (nat nlines) out"
    define r where "r = uknext lzw fi f b"
    have o: "\<forall>l\<in>set out'. wl_min \<le> ln_wl l \<and> ln_wl l \<le> wl_max"
      unfolding out'_def using "1.prems"(2) by (rule copy_lines_in_range)
    show ?thesis
    proof (cases "fst r > 0 \<and> wl (snd (snd r)) 0 > wl_max")
      case stop: True
      have "query_loop lzw f wl_min wl_max max_lines nlines fi b out = (out', fst (snd r))"
        using True stop by (simp add: query_loop.simps[of lzw f wl_min wl_max max_lines nlines]
            Let_def out'_def r_def)
      with "1.prems"(1) o show ?thesis by simp
    next
      case go: False
      have "query_loop lzw f wl_min wl_max max_lines nlines fi b out =
            query_loop lzw f wl_min wl_max max_lines (fst r) (fst (snd r)) (snd (snd r)) out'"
        by (subst query_loop.simps) (use True go in \<open>auto simp: Let_def out'_def r_def\<close>)
      with "1.prems"(1)
      have "query_loop lzw f wl_min wl_max max_lines (fst r) (fst (snd r)) (snd (snd r)) out'
            = (res, fi2)" by simp
      from "1.IH"[OF True out'_def r_def refl refl refl go this o] show ?thesis .
    qed
  qed
qed

text \<open>
  Claim C10.  (1) A successful \<^verbatim>\<open>uknext_\<close> returns the number of lines decoded from the
  record it read (the bytes at the file position, of the length of the current
  record), and the buffers hold every one of them, whatever its wavelength.
  (2) Every transition in the result of \<^verbatim>\<open>query_range\<close> has its wavelength in
  \<open>[wl_min, wl_max]\<close>: the caller filters.  (3) The caller's loop stops, without
  copying anything more, once \<^verbatim>\<open>uknext_\<close> returns a record whose first wavelength
  exceeds \<open>wl_max\<close>.
\<close>

theorem uknext_unfiltered:
  "(valid_file fi f = Some rd \<and> uknext lzw fi f b = (ret, fi', b') \<and> 0 \<le> ret \<longrightarrow>
      (\<exists>rcd. rcd = take (nat (length_r (records rd ! current_record rd))) (drop (pos rd) (data rd)) \<and>
         ret = int (length (lzw rcd)) \<and>
         (\<forall>p<length (lzw rcd). fields_at b' p = line_fields (lzw rcd ! p) \<and>
            (\<forall>t<210. str b' (p * 210 + t) = ln_str (lzw rcd ! p) ! t)))) \<and>
   (query_range lzw fi is_open wl_min wl_max max_lines = Inr (Some (res, fi2)) \<longrightarrow>
      (\<forall>l\<in>set res. wl_min \<le> ln_wl l \<and> ln_wl l \<le> wl_max)) \<and>
   (0 < nlines \<and> int (length out) < max_lines \<and> uknext lzw fi f b = (ret, fi', b') \<and>
      0 < ret \<and> wl_max < wl b' 0 \<longrightarrow>
      query_loop lzw f wl_min wl_max max_lines nlines fi b out =
        (copy_lines wl_min wl_max max_lines b (nat nlines) out, fi'))"
proof (intro conjI impI)
  assume A: "valid_file fi f = Some rd \<and> uknext lzw fi f b = (ret, fi', b') \<and> 0 \<le> ret"
  define rcd where "rcd = take (nat (length_r (records rd ! current_record rd))) (drop (pos rd) (data rd))"
  from A have v: "valid_file fi f = Some rd" and un: "uknext lzw fi f b = (ret, fi', b')"
    and r0: "0 \<le> ret" by simp_all
  have u: "uncompress lzw rcd b = (b', nat ret)"
    unfolding rcd_def by (rule uknext_ok(1)[OF v un r0])
  note us = uncompress_spec[OF u]
  have "ret = int (length (lzw rcd))" using us(1) r0 by linarith
  moreover have "fields_at b' p = line_fields (lzw rcd ! p) \<and>
            (\<forall>t<210. str b' (p * 210 + t) = ln_str (lzw rcd ! p) ! t)" if "p < length (lzw rcd)" for p
    using us(2)[of p] us(3)[of p] us(1) that by simp
  ultimately show "\<exists>rcd. rcd = take (nat (length_r (records rd ! current_record rd))) (drop (pos rd) (data rd)) \<and>
         ret = int (length (lzw rcd)) \<and>
         (\<forall>p<length (lzw rcd). fields_at b' p = line_fields (lzw rcd ! p) \<and>
            (\<forall>t<210. str b' (p * 210 + t) = ln_str (lzw rcd ! p) ! t))"
    using rcd_def by blast
next
  assume "query_range lzw fi is_open wl_min wl_max max_lines = Inr (Some (res, fi2))"
  then obtain n fi1 b1 where "query_loop lzw 1 wl_min wl_max max_lines n fi1 b1 [] = (res, fi2)"
    by (auto simp: query_range_def split: if_splits option.splits)
  from query_loop_in_range[OF this] show "\<forall>l\<in>set res. wl_min \<le> ln_wl l \<and> ln_wl l \<le> wl_max"
    by simp
next
  assume "0 < nlines \<and> int (length out) < max_lines \<and> uknext lzw fi f b = (ret, fi', b') \<and>
      0 < ret \<and> wl_max < wl b' 0"
  then show "query_loop lzw f wl_min wl_max max_lines nlines fi b out =
        (copy_lines wl_min wl_max max_lines b (nat nlines) out, fi')"
    by (simp add: query_loop.simps[of lzw f wl_min wl_max max_lines nlines] Let_def)
qed

lemma ex_valid1: "valid_file ex_fi1 1 = Some (ex_reader\<lparr>current_record := 1, pos := 3\<rparr>)"
  by (simp add: valid_file_def ex_fi1_def MAX_OPEN_FILES_def)

lemma uknext_eval:
  assumes "valid_file fi f = Some rd" "current_record rd < length (records rd)"
    "len = length_r (records rd ! current_record rd)"
    "0 < len" "pos rd + nat len \<le> length (data rd)"
    "rcd = take (nat len) (drop (pos rd) (data rd))"
    "uncompress lzw rcd b = (b', n)"
  shows "uknext lzw fi f b =
           (int n, fi(f := Some (rd\<lparr>pos := pos rd + nat len,
                                      current_record := current_record rd + 1\<rparr>)), b')"
  using assms by (simp add: uknext_def fread1_def Let_def)

lemma ex_uknext:
  "\<exists>b'. uknext ex_lzw ex_fi1 1 b =
          (2, ex_fi(1 := Some (ex_reader\<lparr>current_record := 2, pos := 5\<rparr>)), b') \<and>
        uncompress ex_lzw [2, 2] b = (b', 2)"
proof -
  obtain b' n where u: "uncompress ex_lzw [2, 2] b = (b', n)" by force
  from uncompress_spec(1)[OF u] have n: "n = 2" by (simp add: ex_lzw_lines)
  define rd where "rd = ex_reader\<lparr>current_record := 1, pos := 3\<rparr>"
  have "uknext ex_lzw ex_fi1 1 b =
          (int n, ex_fi1(1 := Some (rd\<lparr>pos := pos rd + nat 2,
                                      current_record := current_record rd + 1\<rparr>)), b')"
    by (rule uknext_eval[OF ex_valid1[folded rd_def] _ _ _ _ _ u])
       (simp_all add: rd_def ex_reader_def ex_dir_def)
  moreover have "ex_fi1(1 := Some (rd\<lparr>pos := pos rd + nat 2,
                                      current_record := current_record rd + 1\<rparr>))
      = ex_fi(1 := Some (ex_reader\<lparr>current_record := 2, pos := 5\<rparr>))"
    by (simp add: ex_fi1_def rd_def ex_reader_def numeral_2_eq_2)
  ultimately show ?thesis using u n by simp
qed

lemma ex_uknext_end:
  "uknext lzw (ex_fi(1 := Some (ex_reader\<lparr>current_record := 2, pos := 5\<rparr>))) 1 b =
     (-2, ex_fi(1 := Some (ex_reader\<lparr>current_record := 2, pos := 5\<rparr>)), b)"
  by (simp add: uknext_def valid_file_def MAX_OPEN_FILES_def ex_reader_def ex_dir_def)

lemma copy_lines_0: "copy_lines wl_min wl_max max_lines b 0 out = out"
  by (simp add: copy_lines_def)

lemma ex_query_range:
  "\<exists>res fi2. query_range ex_lzw ex_fi True 4900 5100 100000 = Inr (Some (res, fi2)) \<and>
     map ln_wl res = [4950, 5050]"
proof -
  from ex_ukread[of ex_lzw, OF ex_lzw_lines(1) ex_lzw_lines(4) ex_lzw_lines(4)]
  obtain b1 b2 where u: "ukread ex_lzw ex_fi 1 4900 5100 fresh_buffers = Some (1, ex_fi1, b2)"
    and u1: "uncompress ex_lzw [1, 1, 1] fresh_buffers = (b1, 2)"
    and fl: "filter_lines 4900 5100 2 b1 = (b2, 1)"
    and ix1: "in_range_idx 4900 5100 b1 2 = [1]"
    unfolding ex_fi1_def by blast
  have w2: "wl b2 0 = 4950"
    using filter_lines_spec(2)[OF fl, of 0] uncompress_spec(2)[OF u1, of 1] ix1
    by (simp add: fields_at_def line_fields_def ex_lzw_lines)
  define fi2 where "fi2 = ex_fi(1 := Some (ex_reader\<lparr>current_record := 2, pos := 5\<rparr>))"
  from ex_uknext[of b2] obtain b3 where n: "uknext ex_lzw ex_fi1 1 b2 = (2, fi2, b3)"
    and u3: "uncompress ex_lzw [2, 2] b2 = (b3, 2)" unfolding fi2_def by blast
  have w3: "wl b3 0 = 5050" "wl b3 (Suc 0) = 5500"
    using uncompress_spec(2)[OF u3, of 0] uncompress_spec(2)[OF u3, of 1]
    by (simp_all add: fields_at_def line_fields_def ex_lzw_lines)
  have c1: "copy_lines 4900 5100 100000 b2 (Suc 0) [] = [line_at b2 0]"
    by (simp add: copy_lines_Suc copy_lines_0 w2)
  have c2: "copy_lines 4900 5100 100000 b3 2 [line_at b2 0] = [line_at b2 0, line_at b3 0]"
    by (simp add: numeral_2_eq_2 copy_lines_Suc copy_lines_0 w3)
  have l3: "query_loop ex_lzw 1 4900 5100 100000 (-2) fi2 b3 [line_at b2 0, line_at b3 0]
            = ([line_at b2 0, line_at b3 0], fi2)"
    by (simp add: query_loop.simps)
  have l2: "query_loop ex_lzw 1 4900 5100 100000 2 fi2 b3 [line_at b2 0]
            = ([line_at b2 0, line_at b3 0], fi2)"
    by (subst query_loop.simps) (simp add: c2 ex_uknext_end[unfolded fi2_def[symmetric]] l3)
  have l1: "query_loop ex_lzw 1 4900 5100 100000 1 ex_fi1 b2 []
            = ([line_at b2 0, line_at b3 0], fi2)"
    by (subst query_loop.simps) (simp add: c1 n w3 l2)
  have "query_range ex_lzw ex_fi True 4900 5100 100000 =
          Inr (Some ([line_at b2 0, line_at b3 0], fi2))"
    by (simp add: query_range_def u l1)
  then show ?thesis by (simp add: ln_wl_line_at w2 w3)
qed

theorem uknext_unfiltered_witness:
  "(\<exists>fi' b'. uknext ex_lzw ex_fi1 1 fresh_buffers = (2, fi', b') \<and>
      wl b' 0 = 5050 \<and> wl b' 1 = 5500 \<and> \<not> wl b' 1 \<le> 5100) \<and>
   (\<exists>res fi2. query_range ex_lzw ex_fi True 4900 5100 100000 = Inr (Some (res, fi2)) \<and>
      map ln_wl res = [4950, 5050] \<and>
      list_all (\<lambda>l. 4900 \<le> ln_wl l \<and> ln_wl l \<le> 5100) res) \<and>
   (\<exists>fi'. query_loop ex_lzw 1 4100 4900 100000 1 ex_fi1 fresh_buffers [] = ([], fi'))"
proof -
  from ex_uknext[of fresh_buffers] obtain fi' b'
    where n: "uknext ex_lzw ex_fi1 1 fresh_buffers = (2, fi', b')" by blast
  from ex_query_range obtain res fi2
    where q: "query_range ex_lzw ex_fi True 4900 5100 100000 = Inr (Some (res, fi2))"
      and m: "map ln_wl res = [4950, 5050]" by (elim exE conjE)
  note T = uknext_unfiltered[where fi = ex_fi1 and f = 1 and lzw = ex_lzw
      and rd = "ex_reader\<lparr>current_record := 1, pos := 3\<rparr>" and b = fresh_buffers
      and ret = 2 and fi' = fi' and b' = b' and ?fi2.0 = fi2 and res = res and is_open = True
      and max_lines = 100000 and nlines = 1 and out = "[]", of 4900 5100]
  note T' = uknext_unfiltered[where fi = ex_fi1 and f = 1 and lzw = ex_lzw
      and b = fresh_buffers and ret = 2 and fi' = fi' and b' = b'
      and max_lines = 100000 and nlines = 1 and out = "[]" and wl_max = 4900 and wl_min = 4100]
  have rc: "take (nat (length_r (records (ex_reader\<lparr>current_record := 1, pos := 3\<rparr>) !
                 current_record (ex_reader\<lparr>current_record := 1, pos := 3\<rparr>))))
              (drop (pos (ex_reader\<lparr>current_record := 1, pos := 3\<rparr>))
                 (data (ex_reader\<lparr>current_record := 1, pos := 3\<rparr>))) = [2, 2]"
    by (simp add: ex_reader_def ex_dir_def)
  from T[THEN conjunct1] ex_valid1 n rc
  have F: "\<forall>p<length (ex_lzw [2, 2]). fields_at b' p = line_fields (ex_lzw [2, 2] ! p)"
    by simp
  have w: "wl b' 0 = 5050" "wl b' 1 = 5500"
    using F[rule_format, of 0] F[rule_format, of 1]
    by (simp_all add: ex_lzw_lines fields_at_def line_fields_def)
  from uknext_unfiltered[where fi = ex_fi and lzw = ex_lzw and ?fi2.0 = fi2 and res = res
      and is_open = True and max_lines = 100000 and wl_min = 4900 and wl_max = 5100,
      THEN conjunct2, THEN conjunct1] q
  have r: "list_all (\<lambda>l. 4900 \<le> ln_wl l \<and> ln_wl l \<le> 5100) res"
    by (simp add: list_all_iff)
  from T'[THEN conjunct2, THEN conjunct2] n w
  have "query_loop ex_lzw 1 4100 4900 100000 1 ex_fi1 fresh_buffers [] =
          (copy_lines 4100 4900 100000 fresh_buffers (nat 1) [], fi')"
    by simp
  then have "query_loop ex_lzw 1 4100 4900 100000 1 ex_fi1 fresh_buffers [] = ([], fi')"
    by (simp add: copy_lines_Suc copy_lines_0 fresh_buffers_def)
  with n w q m r show ?thesis by auto
qed

section \<open>Properties of the mail splitter\<close>

subsection \<open>C strings\<close>

lemma strncmp0_take: "strncmp0 a b n \<longleftrightarrow> take n a = take n b"
  by (induction a b n rule: strncmp0.induct) auto

lemma strchr_None: "strchr t c = None \<longleftrightarrow> c \<notin> set t"
  by (induction t) auto

lemma strchr_Some:
  "strchr t c = Some i \<Longrightarrow>
     take i t = takeWhile (\<lambda>x. x \<noteq> c) t \<and> drop (Suc i) t = tl (dropWhile (\<lambda>x. x \<noteq> c) t)"
proof (induction t arbitrary: i)
  case Nil
  then show ?case by simp
next
  case (Cons x xs)
  then show ?case by (cases "x = c") auto
qed

lemma cut_at:
  "(case strchr t c of Some i \<Rightarrow> take i t | None \<Rightarrow> t) = takeWhile (\<lambda>x. x \<noteq> c) t"
  by (induction t) (auto split: option.splits)

subsection \<open>The sender address\<close>

text \<open>
  Claim C7, as amended.  After the text in double quotes and in parentheses is
  stripped, the rest is cut at the first \<^verbatim>\<open>></\<close> if there is one, and only otherwise at
  the first space; then at the first newline; and if a \<^verbatim>\<open><\<close> is left, only the text
  after the first one is kept.
\<close>

theorem isolate_cut:
  "isolate hdr =
     (let t = swallow_quotes (swallow_quotes hdr (CHR 0x22) (CHR 0x22)) (CHR ''('') (CHR '')'');
          u = (if CHR ''>'' \<in> set t then takeWhile (\<lambda>c. c \<noteq> CHR ''>'') t
               else takeWhile (\<lambda>c. c \<noteq> CHR '' '') t);
          v = takeWhile (\<lambda>c. c \<noteq> CHR 0x0A) u
      in if CHR ''<'' \<in> set v then tl (dropWhile (\<lambda>c. c \<noteq> CHR ''<'') v) else v)"
proof -
  define t where "t = swallow_quotes (swallow_quotes hdr (CHR 0x22) (CHR 0x22)) (CHR ''('') (CHR '')'')"
  define u where "u = (case strchr t (CHR ''>'') of Some i \<Rightarrow> take i t
                | None \<Rightarrow> (case strchr t (CHR '' '') of Some i \<Rightarrow> take i t | None \<Rightarrow> t))"
  define v where "v = (case strchr u (CHR 0x0A) of Some i \<Rightarrow> take i u | None \<Rightarrow> u)"
  have iso: "isolate hdr = (case strchr v (CHR ''<'') of Some i \<Rightarrow> drop (Suc i) v | None \<Rightarrow> v)"
    unfolding v_def u_def t_def by (simp only: isolate_def Let_def)
  have u: "u = (if CHR ''>'' \<in> set t then takeWhile (\<lambda>c. c \<noteq> CHR ''>'') t
               else takeWhile (\<lambda>c. c \<noteq> CHR '' '') t)"
  proof (cases "strchr t (CHR ''>'')")
    case None
    then have "CHR ''>'' \<notin> set t" by (simp add: strchr_None)
    then show ?thesis using cut_at[of t "CHR '' ''"] by (simp add: u_def None)
  next
    case (Some i)
    then have "CHR ''>'' \<in> set t" using strchr_None[of t "CHR ''>''"] by auto
    then show ?thesis using cut_at[of t "CHR ''>''"] Some by (simp add: u_def)
  qed
  have v: "v = takeWhile (\<lambda>c. c \<noteq> CHR 0x0A) u"
    unfolding v_def by (rule cut_at)
  have "isolate hdr = (if CHR ''<'' \<in> set v then tl (dropWhile (\<lambda>c. c \<noteq> CHR ''<'') v) else v)"
  proof (cases "strchr v (CHR ''<'')")
    case None
    then have "CHR ''<'' \<notin> set v" by (simp add: strchr_None)
    then show ?thesis by (simp add: iso None)
  next
    case (Some i)
    then have "CHR ''<'' \<in> set v" using strchr_None[of v "CHR ''<''"] by auto
    then show ?thesis using strchr_Some[OF Some] Some by (simp add: iso)
  qed
  then show ?thesis using u v by (simp add: Let_def t_def)
qed

text \<open>
  The claim as stated fails for a header with an alias before the bracketed
  address: the code cuts at \<^verbatim>\<open>></\<close> although a space comes first, and returns the
  address; cutting at the first of the three characters would return the alias.
\<close>

theorem isolate_counterexample:
  "isolate ''John Doe <jd@example.org>\<newline>'' = ''jd@example.org'' \<and>
   claimed_isolate ''John Doe <jd@example.org>\<newline>'' = ''John'' \<and>
   isolate ''John Doe <jd@example.org>\<newline>'' \<noteq> claimed_isolate ''John Doe <jd@example.org>\<newline>''"
  by code_simp

subsection \<open>\<^verbatim>\<open>CheckClient\<close>\<close>

lemma take_length_prefix: "take (length a) b = a \<longleftrightarrow> prefix a b"
proof
  assume "take (length a) b = a"
  then show "prefix a b" using take_is_prefix[of "length a" b] by simp
next
  assume "prefix a b"
  then show "take (length a) b = a" by (auto simp: prefix_def)
qed

lemma prefix_shorter: "prefix b a \<Longrightarrow> length a \<le> length b \<Longrightarrow> prefix a b"
  by (auto simp: prefix_def)

lemma take_min_prefix:
  "take (min (length a) (length b)) a = take (min (length a) (length b)) b
     \<longleftrightarrow> prefix a b \<or> prefix b a"
proof (cases "length a \<le> length b")
  case True
  then have "take (min (length a) (length b)) a = take (min (length a) (length b)) b
      \<longleftrightarrow> take (length a) b = a" by (auto simp: min_def)
  then show ?thesis using True prefix_shorter[of b a] by (auto simp: take_length_prefix)
next
  case False
  then have "take (min (length a) (length b)) a = take (min (length a) (length b)) b
      \<longleftrightarrow> take (length b) a = b" by (auto simp: min_def)
  then show ?thesis using False prefix_shorter[of a b] by (auto simp: take_length_prefix)
qed

lemma strncmp0_matches:
  "strncmp0 (str2lower addr) (str2lower line)
     (if length (str2lower addr) < length (str2lower line)
      then length (str2lower addr) else length (str2lower line))
   \<longleftrightarrow> matches addr line"
proof -
  have "(if length (str2lower addr) < length (str2lower line)
      then length (str2lower addr) else length (str2lower line))
      = min (length (str2lower addr)) (length (str2lower line))" by (simp add: min_def)
  then show ?thesis by (simp only: strncmp0_take take_min_prefix matches_def)
qed

lemma CheckClient_loop_lookup:
  "CheckClient_loop (str2lower addr) (length (str2lower addr)) reg cn =
     (if length (before_match reg addr) < length reg
      then (1, named_client (before_match reg addr) cn) else (0, []))"
proof (induction reg arbitrary: cn)
  case Nil
  show ?case by (simp add: before_match_def)
next
  case (Cons line reg)
  show ?case
  proof (cases "is_comment line")
    case True
    then have bm: "before_match (line # reg) addr = line # before_match reg addr"
      by (simp add: before_match_def)
    show ?thesis
      using True Cons.IH by (simp add: bm named_client_def is_comment_def)
  next
    case False
    show ?thesis
    proof (cases "matches addr line")
      case True
      then have bm: "before_match (line # reg) addr = []"
        using False by (simp add: before_match_def)
      show ?thesis
        using False True strncmp0_matches[of addr line]
        by (simp add: bm named_client_def is_comment_def Let_def)
    next
      case nm: False
      then have bm: "before_match (line # reg) addr = line # before_match reg addr"
        by (simp add: before_match_def)
      show ?thesis
        using False nm strncmp0_matches[of addr line] Cons.IH
        by (simp add: bm named_client_def is_comment_def Let_def)
    qed
  qed
qed

lemma CheckClient_lookup:
  "CheckClient reg addr cn =
     (if length (before_match reg addr) < length reg
      then (1, named_client (before_match reg addr) cn) else (0, []))"
  by (simp only: CheckClient_def Let_def CheckClient_loop_lookup)

lemma before_match_all:
  "length (before_match reg addr) < length reg
     \<longleftrightarrow> (\<exists>line\<in>set reg. \<not> is_comment line \<and> matches addr line)"
  unfolding before_match_def
proof (induction reg)
  case Nil
  show ?case by simp
next
  case (Cons line reg)
  then show ?case by auto
qed

text \<open>
  Claim C6.  (1) \<^verbatim>\<open>CheckClient\<close> answers 1 exactly when the address matches some
  line of the register that is not a comment, where matching is equality of the
  two lower-cased strings on the length of the shorter; the client it names is the
  one of the last \<^verbatim>\<open>#$\<close> line before the first such line.  (2) The global register
  is consulted first: a client named there is the answer, whatever the local
  register holds.  (3) When the address matches no line of the global register and
  the local register names a client for it, the answer is that name followed by
  \<^verbatim>\<open>_local\<close>.
\<close>

theorem CheckClient_matching:
  "(fst (CheckClient reg addr cn) = 1
      \<longleftrightarrow> (\<exists>line\<in>set reg. \<not> is_comment line \<and> matches addr line)) \<and>
   (fst (CheckClient reg addr cn) = 1
      \<longrightarrow> snd (CheckClient reg addr cn) = named_client (before_match reg addr) cn) \<and>
   (snd (CheckClient greg addr []) \<noteq> []
      \<longrightarrow> authenticate (Some greg) lreg addr = snd (CheckClient greg addr [])) \<and>
   ((\<forall>line\<in>set greg. is_comment line \<or> \<not> matches addr line) \<and>
    snd (CheckClient loc addr []) \<noteq> []
      \<longrightarrow> authenticate (Some greg) (Some loc) addr = snd (CheckClient loc addr []) @ ''_local'')"
proof (intro conjI impI)
  show "fst (CheckClient reg addr cn) = 1
      \<longleftrightarrow> (\<exists>line\<in>set reg. \<not> is_comment line \<and> matches addr line)"
    using before_match_all[of reg addr] by (simp add: CheckClient_lookup)
next
  assume "fst (CheckClient reg addr cn) = 1"
  then show "snd (CheckClient reg addr cn) = named_client (before_match reg addr) cn"
    by (simp add: CheckClient_lookup split: if_splits)
next
  assume "snd (CheckClient greg addr []) \<noteq> []"
  then show "authenticate (Some greg) lreg addr = snd (CheckClient greg addr [])"
    by (simp add: authenticate_def Let_def)
next
  assume A: "(\<forall>line\<in>set greg. is_comment line \<or> \<not> matches addr line) \<and>
    snd (CheckClient loc addr []) \<noteq> []"
  then have "\<not> length (before_match greg addr) < length greg"
    using before_match_all[of greg addr] by blast
  then have "snd (CheckClient greg addr []) = []" by (simp add: CheckClient_lookup)
  with A show "authenticate (Some greg) (Some loc) addr = snd (CheckClient loc addr []) @ ''_local''"
    by (simp add: authenticate_def Let_def)
qed

lemma ex_CheckClient:
  "CheckClient ex_register ''Alice@Example.ORG'' [] = (1, ''AliceGlobal'')"
  "CheckClient ex_register ''Bob@example.org'' [] = (0, [])"
  "CheckClient ex_register_local ''Bob@example.org'' [] = (1, ''BobLocal'')"
  by code_simp+

theorem CheckClient_matching_witness:
  "fst (CheckClient ex_register ''Alice@Example.ORG'' []) = 1 \<and>
   matches ''Alice@Example.ORG'' ''alice@example.org\<newline>'' \<and>
   authenticate (Some ex_register) (Some ex_register_local) ''Alice@Example.ORG'' = ''AliceGlobal'' \<and>
   fst (CheckClient ex_register ''Bob@example.org'' []) \<noteq> 1 \<and>
   authenticate (Some ex_register) (Some ex_register_local) ''Bob@example.org'' = ''BobLocal_local''"
proof -
  note T1 = CheckClient_matching[of ex_register "''Alice@Example.ORG''" "[]" ex_register
      "Some ex_register_local" ex_register_local]
  note T2 = CheckClient_matching[of ex_register "''Bob@example.org''" "[]" ex_register
      "Some ex_register_local" ex_register_local]
  have a: "authenticate (Some ex_register) (Some ex_register_local) ''Alice@Example.ORG'' = ''AliceGlobal''"
    using T1[THEN conjunct2, THEN conjunct2, THEN conjunct1] by (simp add: ex_CheckClient)
  have n: "\<not> (\<exists>line\<in>set ex_register. \<not> is_comment line \<and> matches ''Bob@example.org'' line)"
    using T2[THEN conjunct1] by (simp add: ex_CheckClient)
  then have "authenticate (Some ex_register) (Some ex_register_local) ''Bob@example.org''
      = ''BobLocal_local''"
    using T2[THEN conjunct2, THEN conjunct2, THEN conjunct2] by (simp add: ex_CheckClient)
  moreover have "matches ''Alice@Example.ORG'' ''alice@example.org\<newline>''" by code_simp
  ultimately show ?thesis using a by (simp add: ex_CheckClient)
qed

subsection \<open>The request counter\<close>

text \<open>
  A mail from a registered client with a request is committed: one section is
  written and the counter goes from 0 to 1.
\<close>

lemma main_single_request:
  "main (Some ex_mail_ok) ex_registers (Some 0) =
     ([Header,
       Section \<lparr>sec_request = 1, sec_client = ''AliceGlobal'', sec_address = ''alice@example.org'',
                sec_reply = True, sec_head20 = False, sec_at_end = True\<rparr>,
       Footer], Some 1)"
  by code_simp

text \<open>
  Claim C1 does not hold of the code.  The branch that rejects an unregistered
  sender decrements \<^verbatim>\<open>n_requests\<close> without testing \<^verbatim>\<open>fo != NULL\<close>, unlike the other two
  places that release a number.  A mail from an unregistered sender whose text
  holds a second line starting with \<^verbatim>\<open>From: \<close> releases the number twice: started at
  5, the run writes no section and stores 4.
\<close>

theorem main_counter_below_start:
  "main (Some ex_mail_quoted) ex_registers (Some 5) = ([Header, Footer], Some 4) \<and>
   initial_counter (Some 5) = 5 \<and> committed [Header, Footer] = 0"
  by code_simp

section \<open>Properties of the request parser\<close>

subsection \<open>\<^verbatim>\<open>SetKeyword\<close>\<close>

lemma toupper_idem: "toupper (toupper c) = toupper c"
  by (auto simp: toupper_def islower_def Let_def)

lemma str2upper_idem: "str2upper (str2upper t) = str2upper t"
  by (simp add: str2upper_def toupper_idem)











lemma keyword_table_length: "length keyword_table = 24"
  by (simp add: keyword_table_def)







lemma apply_table_Cons:
  "apply_table (r # T) st = apply_table T (keyword (fst r) (fst (snd r)) (snd (snd r)) st)"
  by (simp add: apply_table_def)

lemma keyword_raw: "keyword kw n f (t, cfg) = keyword kw n f (str2upper t, cfg)"
  by (simp add: keyword_def str2upper_idem Let_def)

lemma apply_table_raw:
  "T \<noteq> [] \<Longrightarrow> apply_table T (t, cfg) = apply_table T (str2upper t, cfg)"
  by (cases T) (simp_all add: apply_table_Cons keyword_raw[of _ _ _ t])










subsection \<open>\<^verbatim>\<open>ExtractAll\<close>\<close>




lemma ex_ExtractAll_reversed:
  "ExtractAll ex_scan ex_pstate [''long format\<newline>'', ''5010,5000\<newline>''] =
           (EXIT_FAILURE,
            \<lparr>p_fs = ex_filesys, p_cfg = initial_config\<lparr>LongFormat := 1\<rparr>,
              p_job = [FailBadRange]\<rparr>, None)"
  by code_simp





subsection \<open>The abundance block of \<^verbatim>\<open>ExtractStellar\<close>\<close>







lemma abund_tokens_frame:
  "a_fs (abund_tokens fmt2 nxt st) = a_fs st \<and> a_cfg (abund_tokens fmt2 nxt st) = a_cfg st"
proof (induction fmt2 nxt st rule: abund_tokens.induct)
  case (1 fmt2 nxt st)
  define r where "r = CheckAbund fmt2 nxt"
  define st1 where "st1 = abund_token (snd r) st"
  have f1: "a_fs st1 = a_fs st \<and> a_cfg st1 = a_cfg st"
    by (simp add: st1_def abund_token_def Let_def)
  show ?case
  proof (cases "fst r")
    case None
    then have "abund_tokens fmt2 nxt st = st1"
      by (subst abund_tokens.simps) (simp add: Let_def r_def st1_def)
    with f1 show ?thesis by simp
  next
    case (Some n)
    then have "abund_tokens fmt2 nxt st = abund_tokens fmt2 n st1"
      by (subst abund_tokens.simps) (simp add: Let_def r_def st1_def)
    with "1.IH"[OF r_def st1_def Some] f1 show ?thesis by simp
  qed
qed







end
